theory Spec2Isabelle
  imports Complex_Main "HOL-Library.Word"
begin

unbundle bit_operations_syntax

section \<open>The threaded render loop of qsgthreadedrenderloop.cpp\<close>

text \<open>
  The file holds two classes, \<^verbatim>\<open>QSGThreadedRenderLoop\<close> (the coordinator, living on the GUI
  thread) and \<^verbatim>\<open>QSGRenderThread\<close> (the render worker). They talk through posted events and
  through one mutex with one wait condition.

  The embedding keeps both objects in one record, because each side reads and writes the
  other's members directly (\<^verbatim>\<open>m_thread->guiIsLocked\<close>, \<^verbatim>\<open>wm->m_windows\<close>). Calls into the
  collaborators that are not part of the file (the scene graph, the OpenGL context, the
  mutex and the wait condition, timers) are recorded, in order, in the member \<open>trace\<close>.
  Posted events are appended to the queue of the receiving thread.
\<close>

subsection \<open>Data\<close>

text \<open>A \<^verbatim>\<open>QQuickWindow *\<close> is a number; \<open>0\<close> is the null pointer.\<close>

type_synonym window_ptr = nat

record qsize =
  width :: int
  height :: int

datatype thread = GuiThread | RenderThread | OtherThread

datatype qimage = NullImage | FramebufferImage qsize

text \<open>What the code reads from a \<^verbatim>\<open>QQuickWindow\<close> and its private part.\<close>

record qquickwindow =
  isVisible :: bool
  isExposed :: bool
  hasHandle :: bool
  hasRenderer :: bool
  isPersistentSceneGraph :: bool
  isPersistentOpenGLContext :: bool
  windowSize :: qsize

text \<open>
  The surroundings of one call: the windows, the identifier the next \<^verbatim>\<open>startTimer\<close>
  returns, and the refresh rate of the primary screen.
\<close>

record host =
  win :: "window_ptr \<Rightarrow> qquickwindow"
  timerId :: int
  refreshRate :: real

text \<open>\<^verbatim>\<open>QSGRenderThread::Window\<close> and \<^verbatim>\<open>QSGThreadedRenderLoop::Window\<close>.\<close>

record rt_window =
  rw_window :: window_ptr
  rw_size :: qsize

record gui_window =
  gw_window :: window_ptr
  gw_pendingUpdate :: bool

text \<open>
  The events of the render thread. The two slots of the thread object are connected to the
  animation driver in the constructor of the loop; the thread object lives in its own
  thread, so a signal of the driver reaches it as an event, which
  \<^verbatim>\<open>QSGRenderThread::event\<close> hands to \<^verbatim>\<open>QThread::event\<close>.
\<close>

datatype rt_event =
    WM_Expose window_ptr qsize
  | WM_Obscure window_ptr
  | WM_RequestSync
  | WM_Resize window_ptr qsize
  | WM_TryRelease window_ptr bool
  | WM_Grab window_ptr
  | Slot_animationStarted
  | Slot_animationStopped

datatype gui_event =
    TimerEvent int
  | WM_UpdateLater window_ptr
  | WM_AdvanceAnimations

datatype action =
    MutexLock thread
  | MutexUnlock thread
  | CondWait thread
  | CondWoken thread
  | WakeOne
  | ExitLoop
  | StartThread
  | CreateContext
  | DeleteContext
  | MakeCurrent window_ptr
  | DoneCurrent
  | SwapBuffers window_ptr
  | SgInitialize
  | SgInvalidate
  | SendPostedDeferredDelete
  | PolishItems window_ptr
  | SyncSceneGraph window_ptr
  | RenderSceneGraph window_ptr qsize
  | FireFrameSwapped window_ptr
  | CleanupNodesOnShutdown window_ptr
  | ReadFramebuffer qsize
  | CreateWindow window_ptr
  | CreateTempWindow
  | MakeCurrentTemp
  | DeleteTempWindow
  | StartTimer int bool
  | KillTimer int
  | AdvanceDriver
  | Warning string

datatype error = AssertionFailure | NullPointerDereference | IndexOutOfRange

record state =
  gl :: bool
  sgReady :: bool
  pendingUpdate :: "2 word"
  sleeping :: bool
  animationRunning :: bool
  guiIsLocked :: bool
  shouldExit :: bool
  allowMainThreadProcessing :: bool
  animationRequestsPending :: "32 word"
  m_windows :: "rt_window list"
  isRunning :: bool
  exited :: bool
  wm_windows :: "gui_window list"
  m_animation_timer :: int
  m_update_timer :: int
  m_exhaust_delay :: int
  driverRunning :: bool
  rt_queue :: "rt_event list"
  gui_queue :: "gui_event list"
  waiting :: bool
  grab_result :: qimage
  trace :: "action list"

definition SyncRequest :: "2 word" where
  "SyncRequest = 1"

definition RepaintRequest :: "2 word" where
  "RepaintRequest = 2"

subsection \<open>Helpers of the file\<close>

text \<open>
  \<^verbatim>\<open>get_env_int\<close>: the content of the variable, read as an integer, or the default.
  \<^verbatim>\<open>qgetenv\<close> and \<^verbatim>\<open>QByteArray::toInt\<close> belong to the library and are parameters.
\<close>

definition get_env_int :: "(string \<Rightarrow> string) \<Rightarrow> (string \<Rightarrow> int option) \<Rightarrow> string \<Rightarrow> int \<Rightarrow> int" where
  "get_env_int qgetenv toInt name defaultValue =
     (case toInt (qgetenv name) of Some v \<Rightarrow> v | None \<Rightarrow> defaultValue)"

definition qsgrl_animation_interval :: "host \<Rightarrow> int" where
  "qsgrl_animation_interval h =
     (if refreshRate h < 1 then 16 else \<lfloor>1000 / refreshRate h\<rfloor>)"

text \<open>
  \<^verbatim>\<open>windowFor\<close> returns a pointer to the first record of the window, or null. The pointer is
  the index of the record.
\<close>

fun windowFor :: "('t \<Rightarrow> window_ptr) \<Rightarrow> 't list \<Rightarrow> window_ptr \<Rightarrow> nat option" where
  "windowFor wof [] w = None"
| "windowFor wof (t # ts) w =
     (if wof t = w then Some 0 else map_option Suc (windowFor wof ts w))"

text \<open>The loop of \<^verbatim>\<open>WM_Obscure\<close> and of \<^verbatim>\<open>hide\<close>: remove the first record of the window.\<close>

fun removeFirst :: "('t \<Rightarrow> window_ptr) \<Rightarrow> 't list \<Rightarrow> window_ptr \<Rightarrow> 't list" where
  "removeFirst wof [] w = []"
| "removeFirst wof (t # ts) w = (if wof t = w then ts else t # removeFirst wof ts w)"

definition record_call :: "action list \<Rightarrow> state \<Rightarrow> state" where
  "record_call as s = s\<lparr>trace := trace s @ as\<rparr>"

definition mutex_lock :: "thread \<Rightarrow> state \<Rightarrow> state" where
  "mutex_lock t s = record_call [MutexLock t] s"

definition mutex_unlock :: "thread \<Rightarrow> state \<Rightarrow> state" where
  "mutex_unlock t s = record_call [MutexUnlock t] s"

text \<open>\<^verbatim>\<open>QWaitCondition::wakeOne\<close>: the thread parked on the condition, if any, may go on.\<close>

definition wakeOne :: "state \<Rightarrow> state" where
  "wakeOne s = record_call [WakeOne] (s\<lparr>waiting := False\<rparr>)"

text \<open>\<^verbatim>\<open>QThread::exit\<close>: the nested event loop of \<^verbatim>\<open>exec\<close> returns after this handler.\<close>

definition exit_loop :: "state \<Rightarrow> state" where
  "exit_loop s = record_call [ExitLoop] (s\<lparr>exited := True\<rparr>)"

definition postEvent_rt :: "rt_event \<Rightarrow> state \<Rightarrow> state" where
  "postEvent_rt e s = s\<lparr>rt_queue := rt_queue s @ [e]\<rparr>"

definition postEvent_gui :: "gui_event \<Rightarrow> state \<Rightarrow> state" where
  "postEvent_gui e s = s\<lparr>gui_queue := gui_queue s @ [e]\<rparr>"

text \<open>Who holds the mutex after a trace, read off its lock, unlock and wait entries.\<close>

fun mutex_holder :: "action list \<Rightarrow> thread option \<Rightarrow> thread option" where
  "mutex_holder [] m = m"
| "mutex_holder (MutexLock t # as) m = mutex_holder as (Some t)"
| "mutex_holder (MutexUnlock t # as) m = mutex_holder as None"
| "mutex_holder (CondWait t # as) m = mutex_holder as None"
| "mutex_holder (CondWoken t # as) m = mutex_holder as (Some t)"
| "mutex_holder (a # as) m = mutex_holder as m"

subsection \<open>QSGRenderThread\<close>

definition requestRepaint :: "state \<Rightarrow> state" where
  "requestRepaint s =
     (let s1 = (if sleeping s then exit_loop s else s)
      in if m_windows s1 \<noteq> [] then s1\<lparr>pendingUpdate := pendingUpdate s1 OR RepaintRequest\<rparr>
         else s1)"

definition rt_animationStarted :: "state \<Rightarrow> state" where
  "rt_animationStarted s =
     (let s1 = s\<lparr>animationRunning := True\<rparr>
      in if sleeping s1 then exit_loop s1 else s1)"

definition rt_animationStopped :: "state \<Rightarrow> state" where
  "rt_animationStopped s = s\<lparr>animationRunning := False\<rparr>"

text \<open>
  The loop of \<^verbatim>\<open>invalidateOpenGL\<close> over the windows of the coordinator; the pair is
  \<open>(persistentSG, persistentGL)\<close>.
\<close>

fun persistence :: "host \<Rightarrow> window_ptr \<Rightarrow> bool \<Rightarrow> gui_window list \<Rightarrow> bool \<times> bool \<Rightarrow> bool \<times> bool" where
  "persistence h window inDestructor [] acc = acc"
| "persistence h window inDestructor (w # ws) acc =
     persistence h window inDestructor ws
       (if \<not> inDestructor \<or> gw_window w \<noteq> window
        then (fst acc \<or> isPersistentSceneGraph (win h (gw_window w)),
              snd acc \<or> isPersistentOpenGLContext (win h (gw_window w)))
        else acc)"

definition invalidateOpenGL :: "host \<Rightarrow> window_ptr \<Rightarrow> bool \<Rightarrow> state \<Rightarrow> state" where
  "invalidateOpenGL h window inDestructor s =
     (if \<not> gl s then s
      else if window = 0
      then record_call [Warning ''QSGThreadedRenderLoop:QSGRenderThread: no window to make current...''] s
      else
        let p = persistence h window inDestructor (wm_windows s) (False, False);
            persistentSG = fst p;
            persistentGL = snd p;
            s1 = record_call [MakeCurrent window] s;
            s2 = (if \<not> persistentSG \<or> inDestructor
                  then record_call [CleanupNodesOnShutdown window] s1 else s1)
        in if persistentSG then s2
           else
             let s3 = record_call [SgInvalidate, SendPostedDeferredDelete, DoneCurrent]
                        (s2\<lparr>sgReady := False\<rparr>)
             in if \<not> persistentGL then record_call [DeleteContext] (s3\<lparr>gl := False\<rparr>)
                else s3)"

text \<open>
  \<^verbatim>\<open>initializeOpenGL\<close> reads \<^verbatim>\<open>m_windows.at(0)\<close>; a temporary window stands in when the size
  of that record is empty (a width or a height that is not positive). Of the calls on the
  new context only its creation and \<^verbatim>\<open>makeCurrent\<close> are recorded; whether \<^verbatim>\<open>makeCurrent\<close>
  succeeds decides a warning only.
\<close>

definition initializeOpenGL :: "state \<Rightarrow> error + state" where
  "initializeOpenGL s =
     (case m_windows s of
        [] \<Rightarrow> Inl IndexOutOfRange
      | w # ws \<Rightarrow>
          let temp = (width (rw_size w) \<le> 0 \<or> height (rw_size w) \<le> 0);
              s1 = (if temp then record_call [CreateTempWindow] s else s);
              s2 = record_call [CreateContext,
                                if temp then MakeCurrentTemp else MakeCurrent (rw_window w),
                                SgInitialize]
                     (s1\<lparr>gl := True, sgReady := True\<rparr>)
          in Inr (if temp then record_call [DeleteTempWindow] s2 else s2))"

text \<open>
  The loop of \<^verbatim>\<open>sync\<close> over the records of the render thread. A call through the context
  pointer while there is no context dereferences a null pointer. The assertion at the head
  of \<^verbatim>\<open>sync\<close> is kept: it fails when \<^verbatim>\<open>guiIsLocked\<close> is false.
\<close>

fun sync_windows :: "rt_window list \<Rightarrow> state \<Rightarrow> error + state" where
  "sync_windows [] s = Inr s"
| "sync_windows (w # ws) s =
     (if width (rw_size w) = 0 \<or> height (rw_size w) = 0 then sync_windows ws s
      else if \<not> gl s then Inl NullPointerDereference
      else sync_windows ws (record_call [MakeCurrent (rw_window w), SyncSceneGraph (rw_window w)] s))"

definition sync :: "state \<Rightarrow> error + state" where
  "sync s =
     (let s1 = mutex_lock RenderThread s
      in if \<not> guiIsLocked s1 then Inl AssertionFailure
         else
           (case sync_windows (m_windows s1) (s1\<lparr>pendingUpdate := 0\<rparr>) of
              Inl e \<Rightarrow> Inl e
            | Inr s2 \<Rightarrow> Inr (mutex_unlock RenderThread (wakeOne s2))))"

text \<open>The render loop of \<^verbatim>\<open>syncAndRender\<close>.\<close>

fun render_windows :: "host \<Rightarrow> rt_window list \<Rightarrow> state \<Rightarrow> error + state" where
  "render_windows h [] s = Inr s"
| "render_windows h (w # ws) s =
     (if \<not> hasRenderer (win h (rw_window w)) \<or> width (rw_size w) = 0 \<or> height (rw_size w) = 0
      then render_windows h ws s
      else if \<not> gl s then Inl NullPointerDereference
      else render_windows h ws
             (record_call [MakeCurrent (rw_window w), RenderSceneGraph (rw_window w) (rw_size w),
                           SwapBuffers (rw_window w), FireFrameSwapped (rw_window w)] s))"

text \<open>
  The first statement of \<^verbatim>\<open>syncAndRender\<close>: ask the GUI thread to advance the animations.
  \<^verbatim>\<open>animationRequestsPending\<close> is a \<^verbatim>\<open>volatile int\<close> that the render thread increments here and
  the GUI thread decrements in its handler of \<^verbatim>\<open>WM_AdvanceAnimations\<close>, neither under the mutex
  nor with an atomic operation. The statement therefore reads the counter twice and writes it
  once: \<open>animate_wanted\<close> is the test with its read, the second read is that of \<^verbatim>\<open>++\<close>, and
  \<open>animate_post r\<close> is the write of \<^verbatim>\<open>++\<close>, for the value \<open>r\<close> that was read, followed by
  \<^verbatim>\<open>postEvent\<close>. The counter has 32 bits; the comparison is signed, and \<^verbatim>\<open>++\<close> and \<^verbatim>\<open>--\<close> wrap
  around. \<open>postAnimate\<close> is the whole statement with nothing happening between its accesses.
  The timing output under \<^verbatim>\<open>QML_WINDOW_TIMING\<close> is left out of every function.
\<close>

definition animate_wanted :: "state \<Rightarrow> bool" where
  "animate_wanted s = (animationRunning s \<and> sint (animationRequestsPending s) < 2)"

definition animate_post :: "32 word \<Rightarrow> state \<Rightarrow> state" where
  "animate_post r s = postEvent_gui WM_AdvanceAnimations (s\<lparr>animationRequestsPending := r + 1\<rparr>)"

definition postAnimate :: "state \<Rightarrow> state" where
  "postAnimate s =
     (if animate_wanted s then animate_post (animationRequestsPending s) s else s)"

text \<open>The rest of \<^verbatim>\<open>syncAndRender\<close>: the sync, if one is requested, and the render loop.\<close>

definition syncAndRender_rest :: "host \<Rightarrow> state \<Rightarrow> error + state" where
  "syncAndRender_rest h s1 =
     (case (if pendingUpdate s1 AND SyncRequest \<noteq> 0 then sync s1 else Inr s1) of
        Inl e \<Rightarrow> Inl e
      | Inr s2 \<Rightarrow> render_windows h (m_windows s2) s2)"

definition syncAndRender :: "host \<Rightarrow> state \<Rightarrow> error + state" where
  "syncAndRender h s = syncAndRender_rest h (postAnimate s)"

text \<open>\<^verbatim>\<open>QSGRenderThread::event\<close>.\<close>

definition event :: "host \<Rightarrow> rt_event \<Rightarrow> state \<Rightarrow> error + state" where
  "event h e s =
     (case e of
        WM_Expose w sz \<Rightarrow>
          (if windowFor rw_window (m_windows s) w \<noteq> None then Inr s
           else Inr (s\<lparr>m_windows := m_windows s @ [\<lparr>rw_window = w, rw_size = sz\<rparr>]\<rparr>))
      | WM_Obscure w \<Rightarrow>
          (let s1 = s\<lparr>m_windows := removeFirst rw_window (m_windows s) w\<rparr>
           in Inr (if sleeping s1 \<and> m_windows s1 \<noteq> [] then exit_loop s1 else s1))
      | WM_RequestSync \<Rightarrow>
          (let s1 = (if sleeping s then exit_loop s else s)
           in Inr (if m_windows s1 \<noteq> []
                   then s1\<lparr>pendingUpdate := pendingUpdate s1 OR SyncRequest\<rparr> else s1))
      | WM_Resize w sz \<Rightarrow>
          (case windowFor rw_window (m_windows s) w of
             None \<Rightarrow> Inl NullPointerDereference
           | Some i \<Rightarrow> Inr (s\<lparr>m_windows := (m_windows s)[i := (m_windows s ! i)\<lparr>rw_size := sz\<rparr>]\<rparr>))
      | WM_TryRelease w inDestructor \<Rightarrow>
          (let s1 = mutex_lock RenderThread s;
               s2 = (if m_windows s1 = []
                     then (let s3 = invalidateOpenGL h w inDestructor s1;
                               s4 = s3\<lparr>shouldExit := \<not> gl s3\<rparr>
                           in if sleeping s4 then exit_loop s4 else s4)
                     else s1)
           in Inr (mutex_unlock RenderThread (wakeOne s2)))
      | WM_Grab w \<Rightarrow>
          (let found = windowFor rw_window (m_windows s) w;
               s1 = mutex_lock RenderThread s
           in case found of
                None \<Rightarrow> Inr (mutex_unlock RenderThread (wakeOne s1))
              | Some i \<Rightarrow>
                  if \<not> gl s1 then Inl NullPointerDereference
                  else
                    let r = m_windows s1 ! i;
                        s2 = record_call [MakeCurrent w, SyncSceneGraph (rw_window r),
                                          RenderSceneGraph w (rw_size r), ReadFramebuffer (rw_size r)] s1;
                        s3 = s2\<lparr>grab_result := FramebufferImage (rw_size r)\<rparr>
                    in Inr (mutex_unlock RenderThread (wakeOne s3)))
      | Slot_animationStarted \<Rightarrow> Inr (rt_animationStarted s)
      | Slot_animationStopped \<Rightarrow> Inr (rt_animationStopped s))"

subsection \<open>Calls that block\<close>

text \<open>
  Some functions of the coordinator park the GUI thread in \<^verbatim>\<open>QWaitCondition::wait\<close>. Such a
  function gives either its result and the state it leaves (\<open>Done\<close>), or the state in which
  it went to sleep together with the rest of the function (\<open>WaitCond\<close>); the rest is run on
  the state the render thread has produced by the time the GUI thread is woken. \<open>Yield\<close> marks
  the place between the read and the write of a member that the render thread writes too,
  with no mutex held: the GUI thread is not parked there, but the render thread may run
  before the rest of the function does. \<open>Abort\<close> is a failed assertion.
\<close>

datatype 'a prog =
    Done 'a state
  | WaitCond state "state \<Rightarrow> 'a prog"
  | Yield state "state \<Rightarrow> 'a prog"
  | Abort error

primrec bind :: "'a prog \<Rightarrow> ('a \<Rightarrow> state \<Rightarrow> 'b prog) \<Rightarrow> 'b prog" where
  "bind (Done a s) f = f a s"
| "bind (WaitCond s k) f = WaitCond s (\<lambda>s'. bind (k s') f)"
| "bind (Yield s k) f = Yield s (\<lambda>s'. bind (k s') f)"
| "bind (Abort e) f = Abort e"

text \<open>
  \<^verbatim>\<open>waitCondition.wait(&mutex)\<close>: release the mutex and park; once woken, take the mutex
  again and go on.
\<close>

definition cond_wait :: "thread \<Rightarrow> state \<Rightarrow> (state \<Rightarrow> 'a prog) \<Rightarrow> 'a prog" where
  "cond_wait t s k =
     WaitCond (record_call [CondWait t] (s\<lparr>waiting := True\<rparr>))
              (\<lambda>s'. k (record_call [CondWoken t] s'))"

subsection \<open>QSGThreadedRenderLoop\<close>

text \<open>The constructors of both objects.\<close>

definition QSGThreadedRenderLoop :: "(string \<Rightarrow> string) \<Rightarrow> (string \<Rightarrow> int option) \<Rightarrow> state" where
  "QSGThreadedRenderLoop qgetenv toInt =
     \<lparr>gl = False, sgReady = False, pendingUpdate = 0, sleeping = False,
      animationRunning = False, guiIsLocked = False, shouldExit = False,
      allowMainThreadProcessing = True, animationRequestsPending = 0, m_windows = [],
      isRunning = False, exited = False, wm_windows = [], m_animation_timer = 0,
      m_update_timer = 0,
      m_exhaust_delay = get_env_int qgetenv toInt ''QML_EXHAUST_DELAY'' 5,
      driverRunning = False, rt_queue = [], gui_queue = [], waiting = False,
      grab_result = NullImage, trace = []\<rparr>"

fun anyoneShowing_from :: "host \<Rightarrow> gui_window list \<Rightarrow> bool" where
  "anyoneShowing_from h [] = False"
| "anyoneShowing_from h (w # ws) =
     (if isVisible (win h (gw_window w)) \<and> isExposed (win h (gw_window w)) then True
      else anyoneShowing_from h ws)"

definition anyoneShowing :: "host \<Rightarrow> state \<Rightarrow> bool" where
  "anyoneShowing h s = anyoneShowing_from h (wm_windows s)"

definition gui_animationStarted :: "host \<Rightarrow> state \<Rightarrow> state" where
  "gui_animationStarted h s =
     (if \<not> anyoneShowing h s \<and> m_animation_timer s = 0
      then record_call [StartTimer (qsgrl_animation_interval h) False]
             (s\<lparr>m_animation_timer := timerId h\<rparr>)
      else s)"

definition gui_animationStopped :: "host \<Rightarrow> state \<Rightarrow> state" where
  "gui_animationStopped h s =
     (if \<not> anyoneShowing h s
      then record_call [KillTimer (m_animation_timer s)] (s\<lparr>m_animation_timer := 0\<rparr>)
      else s)"

definition show_window :: "window_ptr \<Rightarrow> state \<Rightarrow> state" where
  "show_window window s =
     s\<lparr>wm_windows := wm_windows s @ [\<lparr>gw_window = window, gw_pendingUpdate = False\<rparr>]\<rparr>"

definition releaseResources :: "window_ptr \<Rightarrow> bool \<Rightarrow> state \<Rightarrow> unit prog" where
  "releaseResources window inDestructor s =
     (let s1 = mutex_lock GuiThread s
      in if isRunning s1 \<and> \<not> shouldExit s1
         then cond_wait GuiThread (postEvent_rt (WM_TryRelease window inDestructor) s1)
                (\<lambda>s2. Done () (mutex_unlock GuiThread s2))
         else Done () (mutex_unlock GuiThread s1))"

definition handleObscurity :: "host \<Rightarrow> window_ptr \<Rightarrow> state \<Rightarrow> state" where
  "handleObscurity h window s =
     (let s1 = (if isRunning s then postEvent_rt (WM_Obscure window) s else s)
      in if \<not> anyoneShowing h s1 \<and> driverRunning s1 \<and> m_animation_timer s1 = 0
         then record_call [StartTimer (qsgrl_animation_interval h) False]
                (s1\<lparr>m_animation_timer := timerId h\<rparr>)
         else s1)"

definition hide :: "host \<Rightarrow> window_ptr \<Rightarrow> state \<Rightarrow> unit prog" where
  "hide h window s =
     bind (releaseResources window False
             (if isExposed (win h window) then handleObscurity h window s else s))
          (\<lambda>_ s1. Done () (s1\<lparr>wm_windows := removeFirst gw_window (wm_windows s1) window\<rparr>))"

definition windowDestroyed :: "host \<Rightarrow> window_ptr \<Rightarrow> state \<Rightarrow> unit prog" where
  "windowDestroyed h window s =
     bind (if isVisible (win h window) then hide h window s else Done () s)
          (\<lambda>_ s1. releaseResources window True s1)"

definition polishAndSync :: "host \<Rightarrow> state \<Rightarrow> unit prog" where
  "polishAndSync h s =
     (if \<not> anyoneShowing h s then Done () s
      else
        let s1 = record_call (map (\<lambda>w. PolishItems (gw_window w)) (wm_windows s)) s;
            s2 = s1\<lparr>wm_windows := map (\<lambda>w. w\<lparr>gw_pendingUpdate := False\<rparr>) (wm_windows s1)\<rparr>;
            s3 = mutex_lock GuiThread s2;
            s4 = s3\<lparr>guiIsLocked := True\<rparr>;
            s5 = postEvent_rt WM_RequestSync s4
        in cond_wait GuiThread s5
             (\<lambda>s6. Done () (mutex_unlock GuiThread (s6\<lparr>guiIsLocked := False\<rparr>))))"

definition handleExposure :: "host \<Rightarrow> window_ptr \<Rightarrow> state \<Rightarrow> unit prog" where
  "handleExposure h window s =
     (let s1 = (if \<not> hasHandle (win h window) then record_call [CreateWindow window] s else s);
          s2 = postEvent_rt (WM_Expose window (windowSize (win h window))) s1;
          s3 = (if \<not> isRunning s2
                then record_call [StartThread]
                       (s2\<lparr>shouldExit := False, animationRunning := driverRunning s2,
                           isRunning := True\<rparr>)
                else s2)
      in bind (polishAndSync h s3)
           (\<lambda>_ s4. Done ()
              (if m_animation_timer s4 \<noteq> 0
               then record_call [KillTimer (m_animation_timer s4)] (s4\<lparr>m_animation_timer := 0\<rparr>)
               else s4)))"

definition exposureChanged :: "host \<Rightarrow> window_ptr \<Rightarrow> state \<Rightarrow> unit prog" where
  "exposureChanged h window s =
     (if windowFor gw_window (wm_windows s) window = None then Done () s
      else if isExposed (win h window) then handleExposure h window s
      else Done () (handleObscurity h window s))"

text \<open>
  \<^verbatim>\<open>maybeUpdate\<close>; \<open>cur\<close> is the thread that makes the call. The assertion at its head is
  kept: a call from another thread than the GUI thread while the GUI is not locked fails.
\<close>

definition maybeUpdate :: "thread \<Rightarrow> host \<Rightarrow> window_ptr \<Rightarrow> state \<Rightarrow> error + state" where
  "maybeUpdate cur h window s =
     (if \<not> (cur = GuiThread \<or> guiIsLocked s) then Inl AssertionFailure
      else
        case windowFor gw_window (wm_windows s) window of
          None \<Rightarrow> Inr s
        | Some i \<Rightarrow>
            if gw_pendingUpdate (wm_windows s ! i) \<or> \<not> isRunning s then Inr s
            else if cur = RenderThread then Inr (postEvent_gui (WM_UpdateLater window) s)
            else
              let s1 = s\<lparr>wm_windows :=
                          (wm_windows s)[i := (wm_windows s ! i)\<lparr>gw_pendingUpdate := True\<rparr>]\<rparr>
              in if m_update_timer s1 > 0 then Inr s1
                 else Inr (record_call
                             [StartTimer (if driverRunning s1 then m_exhaust_delay s1 else 0) True]
                             (s1\<lparr>m_update_timer := timerId h\<rparr>)))"

definition update :: "thread \<Rightarrow> host \<Rightarrow> window_ptr \<Rightarrow> state \<Rightarrow> error + state" where
  "update cur h window s =
     (if cur = RenderThread then Inr (requestRepaint s) else maybeUpdate cur h window s)"

text \<open>
  \<^verbatim>\<open>QSGThreadedRenderLoop::event\<close>. The handler of \<^verbatim>\<open>WM_AdvanceAnimations\<close> starts with
  \<^verbatim>\<open>--m_thread->animationRequestsPending\<close>: it reads the counter, and writes the value it has
  read less one; the render thread may run in between.
\<close>

definition gui_event_handler :: "host \<Rightarrow> gui_event \<Rightarrow> state \<Rightarrow> unit prog" where
  "gui_event_handler h e s =
     (case e of
        TimerEvent tid \<Rightarrow>
          if tid = m_animation_timer s then Done () (record_call [AdvanceDriver] s)
          else if tid = m_update_timer s
          then polishAndSync h
                 (record_call [KillTimer (m_update_timer s)] (s\<lparr>m_update_timer := 0\<rparr>))
          else Done () s
      | WM_UpdateLater window \<Rightarrow>
          if windowFor gw_window (wm_windows s) window \<noteq> None
          then (case maybeUpdate GuiThread h window s of
                  Inl err \<Rightarrow> Abort err
                | Inr s1 \<Rightarrow> Done () s1)
          else Done () s
      | WM_AdvanceAnimations \<Rightarrow>
          Yield s
            (\<lambda>s1. let s2 = s1\<lparr>animationRequestsPending := animationRequestsPending s - 1\<rparr>
                  in Done () (if driverRunning s2 then record_call [AdvanceDriver] s2 else s2)))"

definition grab :: "host \<Rightarrow> window_ptr \<Rightarrow> state \<Rightarrow> qimage prog" where
  "grab h window s =
     (if \<not> isRunning s then Done NullImage s
      else
        let s1 = (if \<not> hasHandle (win h window) then record_call [CreateWindow window] s else s);
            s2 = record_call [PolishItems window] s1;
            s3 = s2\<lparr>grab_result := NullImage\<rparr>;
            s4 = mutex_lock GuiThread s3;
            s5 = postEvent_rt (WM_Grab window) s4
        in cond_wait GuiThread s5
             (\<lambda>s6. Done (grab_result s6) (mutex_unlock GuiThread s6)))"

definition resize :: "host \<Rightarrow> window_ptr \<Rightarrow> qsize \<Rightarrow> state \<Rightarrow> unit prog" where
  "resize h w sz s =
     (if \<not> isRunning s \<or> wm_windows s = [] \<or> \<not> isExposed (win h w)
         \<or> windowFor gw_window (wm_windows s) w = None
      then Done () s
      else if width sz = 0 \<or> height sz = 0 then Done () s
      else polishAndSync h (postEvent_rt (WM_Resize w sz) s))"

subsection \<open>The two threads together\<close>

text \<open>
  \<^verbatim>\<open>QSGRenderThread::run\<close> has no input of its own: what it does depends on the events the GUI
  thread posts while it runs. It is therefore given as a step function over a configuration:
  the shared state, the place the render thread has reached in \<^verbatim>\<open>run\<close>, and the rest of the
  call in which the GUI thread is blocked or has yielded, if it is inside one.

  A step is one of:
  \<^item> a call of the host into the coordinator on the GUI thread, or the delivery of an event or
    of a timer to it, run up to its return, up to \<^verbatim>\<open>QWaitCondition::wait\<close>, or up to the place
    between the read and the write of \<^verbatim>\<open>--animationRequestsPending\<close>;
  \<^item> the GUI thread going on after it has been woken, or from the place where it yielded;
  \<^item> the render thread advancing in \<^verbatim>\<open>run\<close>: starting, a pass through the body guarded by
    \<^verbatim>\<open>m_windows.size() > 0\<close>, leaving \<^verbatim>\<open>processEvents\<close>, deciding to sleep, finishing. The pass
    is one step when the test at the head of \<^verbatim>\<open>syncAndRender\<close> fails. When it succeeds the pass
    is three steps: up to the test (\<open>AnimateLoad\<close> is the place after it), the read of
    \<^verbatim>\<open>++animationRequestsPending\<close> (\<open>AnimateStore r\<close> is the place after it, \<open>r\<close> the value read),
    and the write with all that follows;
  \<^item> the render thread handling the next posted event, in \<^verbatim>\<open>processEvents\<close> or in \<^verbatim>\<open>exec\<close>;
  \<^item> a call of \<^verbatim>\<open>update\<close> or \<^verbatim>\<open>maybeUpdate\<close> made on the render thread by the scene graph.

  Statements are executed in program order. Each is atomic, but for the two that read and
  write \<^verbatim>\<open>animationRequestsPending\<close>, whose accesses are separate; a step groups the
  statements between two points where the other thread matters. A step whose code fails (a
  null pointer, a failed assertion) is not taken: the process ends there.
\<close>

datatype rt_pc =
    NotStarted
  | LoopTop
  | AnimateLoad
  | AnimateStore "32 word"
  | Events
  | AfterEvents
  | Asleep

record config =
  st :: state
  rt_pc :: rt_pc
  gui_rest :: "(state \<Rightarrow> unit prog) option"

definition initial_config :: "(string \<Rightarrow> string) \<Rightarrow> (string \<Rightarrow> int option) \<Rightarrow> config" where
  "initial_config qgetenv toInt =
     \<lparr>st = QSGThreadedRenderLoop qgetenv toInt, rt_pc = NotStarted, gui_rest = None\<rparr>"

text \<open>What the host can ask of the GUI thread when it is in its event loop.\<close>

datatype gui_call =
    Call_show window_ptr
  | Call_hide window_ptr
  | Call_windowDestroyed window_ptr
  | Call_exposureChanged window_ptr
  | Call_resize window_ptr qsize
  | Call_update window_ptr
  | Call_maybeUpdate window_ptr
  | Call_grab window_ptr
  | Deliver_posted
  | Deliver_timer int
  | Driver_started
  | Driver_stopped

text \<open>
  The signals of the animation driver: \<^verbatim>\<open>started\<close> and \<^verbatim>\<open>stopped\<close> are connected first to the
  slots of the thread object (queued: it lives in the render thread), then to those of the
  loop (direct).
\<close>

definition gui_call_prog :: "host \<Rightarrow> gui_call \<Rightarrow> state \<Rightarrow> unit prog option" where
  "gui_call_prog h c s =
     (case c of
        Call_show w \<Rightarrow> Some (Done () (show_window w s))
      | Call_hide w \<Rightarrow> Some (hide h w s)
      | Call_windowDestroyed w \<Rightarrow> Some (windowDestroyed h w s)
      | Call_exposureChanged w \<Rightarrow> Some (exposureChanged h w s)
      | Call_resize w sz \<Rightarrow> Some (resize h w sz s)
      | Call_update w \<Rightarrow>
          Some (case update GuiThread h w s of Inl err \<Rightarrow> Abort err | Inr s1 \<Rightarrow> Done () s1)
      | Call_maybeUpdate w \<Rightarrow>
          Some (case maybeUpdate GuiThread h w s of Inl err \<Rightarrow> Abort err | Inr s1 \<Rightarrow> Done () s1)
      | Call_grab w \<Rightarrow> Some (bind (grab h w s) (\<lambda>image s1. Done () s1))
      | Deliver_posted \<Rightarrow>
          (case gui_queue s of
             [] \<Rightarrow> None
           | e # q \<Rightarrow> Some (gui_event_handler h e (s\<lparr>gui_queue := q\<rparr>)))
      | Deliver_timer tid \<Rightarrow>
          (if tid > 0 then Some (gui_event_handler h (TimerEvent tid) s) else None)
      | Driver_started \<Rightarrow>
          (if driverRunning s then None
           else Some (Done () (gui_animationStarted h
                                 (postEvent_rt Slot_animationStarted (s\<lparr>driverRunning := True\<rparr>)))))
      | Driver_stopped \<Rightarrow>
          (if \<not> driverRunning s then None
           else Some (Done () (gui_animationStopped h
                                 (postEvent_rt Slot_animationStopped (s\<lparr>driverRunning := False\<rparr>))))))"

definition settle :: "config \<Rightarrow> unit prog \<Rightarrow> config option" where
  "settle c p =
     (case p of
        Done u s \<Rightarrow> Some (c\<lparr>st := s, gui_rest := None\<rparr>)
      | WaitCond s k \<Rightarrow> Some (c\<lparr>st := s, gui_rest := Some k\<rparr>)
      | Yield s k \<Rightarrow> Some (c\<lparr>st := s, gui_rest := Some k\<rparr>)
      | Abort err \<Rightarrow> None)"

definition gui_step :: "host \<Rightarrow> gui_call \<Rightarrow> config \<Rightarrow> config option" where
  "gui_step h call c =
     (case gui_rest c of
        Some k \<Rightarrow> None
      | None \<Rightarrow> (case gui_call_prog h call (st c) of None \<Rightarrow> None | Some p \<Rightarrow> settle c p))"

definition gui_resume :: "config \<Rightarrow> config option" where
  "gui_resume c =
     (case gui_rest c of
        None \<Rightarrow> None
      | Some k \<Rightarrow> if waiting (st c) then None else settle c (k (st c)))"

text \<open>
  The body of \<^verbatim>\<open>run\<close> under \<^verbatim>\<open>if (m_windows.size() > 0)\<close>: the two statements before the call
  of \<^verbatim>\<open>syncAndRender\<close>, and the whole body with nothing happening in between.
\<close>

definition prepare_frame :: "state \<Rightarrow> error + state" where
  "prepare_frame s =
     (case (if \<not> gl s then initializeOpenGL s else Inr s) of
        Inl e \<Rightarrow> Inl e
      | Inr s1 \<Rightarrow>
          Inr (if \<not> sgReady s1 then record_call [SgInitialize] (s1\<lparr>sgReady := True\<rparr>) else s1))"

definition run_frame :: "host \<Rightarrow> state \<Rightarrow> error + state" where
  "run_frame h s =
     (case prepare_frame s of
        Inl e \<Rightarrow> Inl e
      | Inr s1 \<Rightarrow> syncAndRender h s1)"

datatype rt_choice = Proceed | Dispatch | Hook_update window_ptr | Hook_maybeUpdate window_ptr

text \<open>The end of a pass through the body: the rest of \<^verbatim>\<open>syncAndRender\<close>, then \<^verbatim>\<open>processEvents\<close>.\<close>

definition finish_frame :: "host \<Rightarrow> config \<Rightarrow> state \<Rightarrow> config option" where
  "finish_frame h c s =
     (case syncAndRender_rest h s of
        Inl e \<Rightarrow> None
      | Inr s1 \<Rightarrow> Some (c\<lparr>st := s1, rt_pc := Events\<rparr>))"

text \<open>
  \<^verbatim>\<open>exec\<close> returns when \<^verbatim>\<open>exit\<close> has been called, after the handler that called it.
\<close>

definition leave_exec :: "config \<Rightarrow> state \<Rightarrow> config" where
  "leave_exec c s =
     (if exited s then c\<lparr>st := s\<lparr>exited := False, sleeping := False\<rparr>, rt_pc := LoopTop\<rparr>
      else c\<lparr>st := s, rt_pc := Asleep\<rparr>)"

definition rt_step :: "host \<Rightarrow> rt_choice \<Rightarrow> config \<Rightarrow> config option" where
  "rt_step h choice c =
     (let s = st c in
      case choice of
        Proceed \<Rightarrow>
          (case rt_pc c of
             NotStarted \<Rightarrow> if isRunning s then Some (c\<lparr>rt_pc := LoopTop\<rparr>) else None
           | LoopTop \<Rightarrow>
               if shouldExit s
               then (if gl s then None
                     else Some (c\<lparr>st := s\<lparr>isRunning := False\<rparr>, rt_pc := NotStarted\<rparr>))
               else if m_windows s \<noteq> []
               then (case prepare_frame s of
                       Inl e \<Rightarrow> None
                     | Inr s1 \<Rightarrow>
                         if animate_wanted s1 then Some (c\<lparr>st := s1, rt_pc := AnimateLoad\<rparr>)
                         else finish_frame h c s1)
               else Some (c\<lparr>rt_pc := Events\<rparr>)
           | AnimateLoad \<Rightarrow> Some (c\<lparr>rt_pc := AnimateStore (animationRequestsPending s)\<rparr>)
           | AnimateStore r \<Rightarrow> finish_frame h c (animate_post r s)
           | Events \<Rightarrow>
               Some (c\<lparr>st := record_call [SendPostedDeferredDelete] s, rt_pc := AfterEvents\<rparr>)
           | AfterEvents \<Rightarrow>
               if \<not> shouldExit s
                  \<and> ((\<not> animationRunning s \<and> pendingUpdate s = 0) \<or> m_windows s = [])
               then Some (leave_exec c (s\<lparr>sleeping := True\<rparr>))
               else Some (c\<lparr>rt_pc := LoopTop\<rparr>)
           | Asleep \<Rightarrow> None)
      | Dispatch \<Rightarrow>
          (case rt_queue s of
             [] \<Rightarrow> None
           | e # q \<Rightarrow>
               if rt_pc c = Events
               then (case event h e (s\<lparr>rt_queue := q\<rparr>) of
                       Inl err \<Rightarrow> None
                     | Inr s1 \<Rightarrow> Some (c\<lparr>st := s1\<rparr>))
               else if rt_pc c = Asleep
               then (case event h e (s\<lparr>rt_queue := q\<rparr>) of
                       Inl err \<Rightarrow> None
                     | Inr s1 \<Rightarrow> Some (leave_exec c s1))
               else None)
      | Hook_update w \<Rightarrow>
          (if rt_pc c = Events
           then (case update RenderThread h w s of
                   Inl err \<Rightarrow> None
                 | Inr s1 \<Rightarrow> Some (c\<lparr>st := s1\<rparr>))
           else None)
      | Hook_maybeUpdate w \<Rightarrow>
          (if rt_pc c = Events
           then (case maybeUpdate RenderThread h w s of
                   Inl err \<Rightarrow> None
                 | Inr s1 \<Rightarrow> Some (c\<lparr>st := s1\<rparr>))
           else None))"

datatype label = Gui host gui_call | Gui_resume | Rt host rt_choice

definition step :: "label \<Rightarrow> config \<Rightarrow> config option" where
  "step l c =
     (case l of
        Gui h call \<Rightarrow> gui_step h call c
      | Gui_resume \<Rightarrow> gui_resume c
      | Rt h choice \<Rightarrow> rt_step h choice c)"

fun run_steps :: "label list \<Rightarrow> config \<Rightarrow> config option" where
  "run_steps [] c = Some c"
| "run_steps (l # ls) c = (case step l c of None \<Rightarrow> None | Some c1 \<Rightarrow> run_steps ls c1)"

inductive reachable :: "config \<Rightarrow> bool" where
  reachable_initial: "reachable (initial_config qgetenv toInt)"
| reachable_step: "reachable c \<Longrightarrow> step l c = Some c1 \<Longrightarrow> reachable c1"

subsection \<open>Notions used in the statements\<close>

text \<open>
  A blocking call finishes with a result and a state: at once, or after the render thread
  has left some state \<open>s2\<close> behind at the moment the GUI thread is woken.
\<close>

inductive finishes :: "'a prog \<Rightarrow> 'a \<Rightarrow> state \<Rightarrow> bool" where
  finishes_Done: "finishes (Done a s) a s"
| finishes_Wait: "finishes (k s2) a s' \<Longrightarrow> finishes (WaitCond s1 k) a s'"
| finishes_Yield: "finishes (k s2) a s' \<Longrightarrow> finishes (Yield s1 k) a s'"

text \<open>
  The windows of the coordinator that count in \<^verbatim>\<open>invalidateOpenGL\<close>: all of them, but for
  the requesting window when the call comes from its destructor.
\<close>

definition remaining :: "window_ptr \<Rightarrow> bool \<Rightarrow> state \<Rightarrow> gui_window list" where
  "remaining w d s = filter (\<lambda>g. \<not> (d \<and> gw_window g = w)) (wm_windows s)"

text \<open>The calls \<^verbatim>\<open>sync\<close> and the render loop make for a list of records.\<close>

definition synced :: "rt_window list \<Rightarrow> action list" where
  "synced ws =
     concat (map (\<lambda>r. [MakeCurrent (rw_window r), SyncSceneGraph (rw_window r)])
               (filter (\<lambda>r. \<not> (width (rw_size r) = 0 \<or> height (rw_size r) = 0)) ws))"

definition rendered :: "host \<Rightarrow> rt_window list \<Rightarrow> action list" where
  "rendered h ws =
     concat (map (\<lambda>r. [MakeCurrent (rw_window r), RenderSceneGraph (rw_window r) (rw_size r),
                        SwapBuffers (rw_window r), FireFrameSwapped (rw_window r)])
               (filter (\<lambda>r. \<not> (\<not> hasRenderer (win h (rw_window r))
                                \<or> width (rw_size r) = 0 \<or> height (rw_size r) = 0)) ws))"

text \<open>
  The events the GUI thread posts and then waits for. A rendezvous is outstanding for each
  of them in the queue of the render thread, and for a sync request the render thread has
  noted in \<^verbatim>\<open>pendingUpdate\<close> but not yet served.
\<close>

fun is_rendezvous :: "rt_event \<Rightarrow> bool" where
  "is_rendezvous WM_RequestSync = True"
| "is_rendezvous (WM_TryRelease w d) = True"
| "is_rendezvous (WM_Grab w) = True"
| "is_rendezvous e = False"

definition sync_pending :: "state \<Rightarrow> bool" where
  "sync_pending s = (pendingUpdate s AND SyncRequest \<noteq> 0)"

definition tokens :: "state \<Rightarrow> nat" where
  "tokens s = length (filter is_rendezvous (rt_queue s)) + (if sync_pending s then 1 else 0)"

text \<open>
  What a stretch of coordinator code does to the state it starts in, up to its return or to
  a place where it yields (\<open>seg_done\<close>), or up to its wait (\<open>seg_wait\<close>): it leaves
  \<^verbatim>\<open>pendingUpdate\<close>, its own event queue and the records of the render thread alone, and posts
  to the render thread no rendezvous event before a return, exactly one before a wait.
\<close>

definition gui_frame :: "state \<Rightarrow> state \<Rightarrow> bool" where
  "gui_frame s0 s =
     (pendingUpdate s = pendingUpdate s0
      \<and> gui_queue s = gui_queue s0
      \<and> m_windows s = m_windows s0)"

definition seg_done :: "state \<Rightarrow> state \<Rightarrow> bool" where
  "seg_done s0 s =
     (gui_frame s0 s \<and> waiting s = waiting s0
      \<and> (\<exists>es. rt_queue s = rt_queue s0 @ es \<and> filter is_rendezvous es = []))"

definition seg_wait :: "state \<Rightarrow> state \<Rightarrow> bool" where
  "seg_wait s0 s =
     (gui_frame s0 s \<and> waiting s
      \<and> (\<exists>es. rt_queue s = rt_queue s0 @ es \<and> length (filter is_rendezvous es) = 1
             \<and> (WM_RequestSync \<in> set es \<longrightarrow> guiIsLocked s)))"

primrec segments_ok :: "'a prog \<Rightarrow> state \<Rightarrow> bool" where
  "segments_ok (Done a s) s0 = seg_done s0 s"
| "segments_ok (WaitCond s k) s0 = (seg_wait s0 s \<and> (\<forall>s'. segments_ok (k s') s'))"
| "segments_ok (Yield s k) s0 = (seg_done s0 s \<and> (\<forall>s'. segments_ok (k s') s'))"
| "segments_ok (Abort e) s0 = True"

text \<open>The invariant of the protocol between the two threads.\<close>

definition protocol_invariant :: "config \<Rightarrow> bool" where
  "protocol_invariant c =
     ((gui_rest c = None \<or> \<not> waiting (st c) \<longrightarrow> tokens (st c) = 0)
      \<and> tokens (st c) \<le> 1
      \<and> (WM_RequestSync \<in> set (rt_queue (st c)) \<or> sync_pending (st c) \<longrightarrow> guiIsLocked (st c))
      \<and> (gui_rest c = None \<longrightarrow> \<not> waiting (st c))
      \<and> (\<forall>k. gui_rest c = Some k \<longrightarrow> (\<forall>s'. segments_ok (k s') s')))"

text \<open>The render thread keeps one record per window.\<close>

definition records_invariant :: "config \<Rightarrow> bool" where
  "records_invariant c =
     (distinct (map rw_window (m_windows (st c)))
      \<and> (\<forall>k. gui_rest c = Some k \<longrightarrow> (\<forall>s'. segments_ok (k s') s')))"

text \<open>What the first statements of a pass through \<^verbatim>\<open>run\<close> leave alone.\<close>

definition frame_entry :: "state \<Rightarrow> state \<Rightarrow> bool" where
  "frame_entry s s2 =
     (rt_queue s2 = rt_queue s \<and> guiIsLocked s2 = guiIsLocked s
      \<and> animationRequestsPending s2 = animationRequestsPending s \<and> gui_queue s2 = gui_queue s
      \<and> waiting s2 = waiting s \<and> pendingUpdate s2 = pendingUpdate s
      \<and> m_windows s2 = m_windows s)"

text \<open>
  The GUI thread outside \<^verbatim>\<open>polishAndSync\<close>: \<^verbatim>\<open>guiIsLocked\<close> is false and nobody holds the
  mutex. A blocking call returns unlocked when every return is of that kind, whatever the
  render thread does while the call waits, short of writing \<^verbatim>\<open>guiIsLocked\<close> or keeping the
  mutex.
\<close>

definition idle_ok :: "state \<Rightarrow> bool" where
  "idle_ok s = (\<not> guiIsLocked s \<and> mutex_holder (trace s) None = None)"

primrec returns_unlocked :: "'a prog \<Rightarrow> bool" where
  "returns_unlocked (Done a s) = idle_ok s"
| "returns_unlocked (WaitCond s k) =
     (mutex_holder (trace s) None = None
      \<and> (\<forall>s'. guiIsLocked s' = guiIsLocked s \<and> mutex_holder (trace s') None = None
               \<longrightarrow> returns_unlocked (k s')))"
| "returns_unlocked (Yield s k) =
     (mutex_holder (trace s) None = None
      \<and> (\<forall>s'. guiIsLocked s' = guiIsLocked s \<and> mutex_holder (trace s') None = None
               \<longrightarrow> returns_unlocked (k s')))"
| "returns_unlocked (Abort e) = True"

definition unlocked_invariant :: "config \<Rightarrow> bool" where
  "unlocked_invariant c =
     (mutex_holder (trace (st c)) None = None
      \<and> (gui_rest c = None \<longrightarrow> \<not> guiIsLocked (st c))
      \<and> (\<forall>k. gui_rest c = Some k \<longrightarrow>
            (\<forall>s'. guiIsLocked s' = guiIsLocked (st c) \<and> mutex_holder (trace s') None = None
                   \<longrightarrow> returns_unlocked (k s'))))"

subsection \<open>Concrete inputs\<close>

definition example_window :: qquickwindow where
  "example_window =
     \<lparr>isVisible = True, isExposed = True, hasHandle = True, hasRenderer = True,
      isPersistentSceneGraph = False, isPersistentOpenGLContext = False,
      windowSize = \<lparr>width = 800, height = 600\<rparr>\<rparr>"

definition example_host :: host where
  "example_host = \<lparr>win = (\<lambda>w. example_window), timerId = 7, refreshRate = 60\<rparr>"

text \<open>The loop as constructed, with \<^verbatim>\<open>QML_EXHAUST_DELAY\<close> unset.\<close>

definition example_state :: state where
  "example_state = QSGThreadedRenderLoop (\<lambda>name. []) (\<lambda>content. None)"

text \<open>A context, one shown window that asks for a persistent scene graph only.\<close>

definition persistent_state :: state where
  "persistent_state =
     example_state\<lparr>gl := True, sgReady := True,
                   wm_windows := [\<lparr>gw_window = 1, gw_pendingUpdate = False\<rparr>]\<rparr>"

definition persistentSG_host :: host where
  "persistentSG_host =
     \<lparr>win = (\<lambda>w. example_window\<lparr>isPersistentSceneGraph := True\<rparr>), timerId = 7, refreshRate = 60\<rparr>"

text \<open>Two exposed windows, the first of width zero, and a sync request with the GUI locked.\<close>

definition zero_size_state :: state where
  "zero_size_state =
     example_state\<lparr>gl := True, sgReady := True, guiIsLocked := True, pendingUpdate := SyncRequest,
       m_windows := [\<lparr>rw_window = 1, rw_size = \<lparr>width = 0, height = 600\<rparr>\<rparr>,
                     \<lparr>rw_window = 2, rw_size = \<lparr>width = 800, height = 600\<rparr>\<rparr>]\<rparr>"

text \<open>A running render thread, a running animation driver and one shown window.\<close>

definition tracked_state :: state where
  "tracked_state =
     example_state\<lparr>isRunning := True, driverRunning := True,
                   wm_windows := [\<lparr>gw_window = 1, gw_pendingUpdate = False\<rparr>]\<rparr>"

definition showing_state :: state where
  "showing_state =
     example_state\<lparr>isRunning := True,
                   wm_windows := [\<lparr>gw_window = 1, gw_pendingUpdate = True\<rparr>]\<rparr>"

text \<open>
  Runs of the two threads from the constructed loop. In the first a window is shown and
  exposed, the render thread starts and handles \<^verbatim>\<open>WM_Expose\<close> and \<^verbatim>\<open>WM_RequestSync\<close>. The
  second goes on until the sync is done and the GUI thread has returned. In the third the
  window then asks for an update, the update timer fires, and the render thread handles the
  \<^verbatim>\<open>WM_RequestSync\<close> of the second \<^verbatim>\<open>polishAndSync\<close>.
\<close>

definition example_config :: config where
  "example_config = initial_config (\<lambda>name. []) (\<lambda>content. None)"

definition sync_requested_run :: "label list" where
  "sync_requested_run =
     [Gui example_host (Call_show 1), Gui example_host (Call_exposureChanged 1),
      Rt example_host Proceed, Rt example_host Proceed,
      Rt example_host Dispatch, Rt example_host Dispatch]"

definition synced_run :: "label list" where
  "synced_run =
     sync_requested_run
     @ [Rt example_host Proceed, Rt example_host Proceed, Rt example_host Proceed, Gui_resume]"

definition resync_run :: "label list" where
  "resync_run =
     synced_run
     @ [Gui example_host (Call_maybeUpdate 1), Gui example_host (Deliver_timer 7),
        Rt example_host Dispatch]"

text \<open>
  Further runs. In \<open>resize_run\<close> window 1 is rendering and the GUI thread has returned; window 2
  is then shown and, exposed but with no \<^verbatim>\<open>exposureChanged\<close> delivered for it yet, resized.
  In \<open>zero_size_run\<close> a window of width zero is exposed and the render thread goes through
  one frame.
\<close>

definition resize_run :: "label list" where
  "resize_run =
     synced_run
     @ [Gui example_host (Call_show 2),
        Gui example_host (Call_resize 2 \<lparr>width = 640, height = 480\<rparr>)]"

definition zero_size_host :: host where
  "zero_size_host =
     \<lparr>win = (\<lambda>w. example_window\<lparr>windowSize := \<lparr>width = 0, height = 600\<rparr>\<rparr>),
      timerId = 7, refreshRate = 60\<rparr>"

definition zero_size_run :: "label list" where
  "zero_size_run =
     [Gui zero_size_host (Call_show 1), Gui zero_size_host (Call_exposureChanged 1),
      Rt zero_size_host Proceed, Rt zero_size_host Proceed,
      Rt zero_size_host Dispatch, Rt zero_size_host Dispatch,
      Rt zero_size_host Proceed, Rt zero_size_host Proceed, Rt zero_size_host Proceed]"

text \<open>
  A run with the animation driver started. In \<open>first_frame_run\<close> a window is shown and exposed
  and the render thread goes through its first frame, which posts one \<^verbatim>\<open>WM_AdvanceAnimations\<close>;
  the GUI thread returns from \<^verbatim>\<open>polishAndSync\<close>. In \<open>lost_update_run\<close> the render thread then
  enters its second frame and reads the counter for \<^verbatim>\<open>++\<close>; the GUI thread is given the posted
  event and reads the counter for \<^verbatim>\<open>--\<close>; the render thread writes and posts; the GUI thread
  writes. Two more frames follow. In \<open>lost_decrement_run\<close> the two writes of the second frame
  come in the other order.
\<close>

definition first_frame_run :: "label list" where
  "first_frame_run =
     [Gui example_host Driver_started,
      Gui example_host (Call_show 1), Gui example_host (Call_exposureChanged 1),
      Rt example_host Proceed, Rt example_host Proceed,
      Rt example_host Dispatch, Rt example_host Dispatch, Rt example_host Dispatch,
      Rt example_host Proceed, Rt example_host Proceed,
      Rt example_host Proceed, Rt example_host Proceed, Rt example_host Proceed,
      Gui_resume]"

definition racing_frame_run :: "label list" where
  "racing_frame_run =
     [Rt example_host Proceed, Rt example_host Proceed,
      Rt example_host Proceed, Rt example_host Proceed,
      Gui example_host Deliver_posted,
      Rt example_host Proceed,
      Gui_resume]"

definition lost_decrement_run :: "label list" where
  "lost_decrement_run =
     first_frame_run
     @ [Rt example_host Proceed, Rt example_host Proceed,
        Rt example_host Proceed, Rt example_host Proceed,
        Gui example_host Deliver_posted,
        Gui_resume,
        Rt example_host Proceed]"

definition animated_frame_run :: "label list" where
  "animated_frame_run =
     [Rt example_host Proceed, Rt example_host Proceed,
      Rt example_host Proceed, Rt example_host Proceed, Rt example_host Proceed]"

definition lost_update_run :: "label list" where
  "lost_update_run =
     first_frame_run @ racing_frame_run @ animated_frame_run @ animated_frame_run"

section \<open>Properties\<close>

subsection \<open>Auxiliary facts\<close>

lemmas state_ops = record_call_def mutex_lock_def mutex_unlock_def wakeOne_def exit_loop_def
  postEvent_rt_def postEvent_gui_def

lemma trace_invalidateOpenGL:
  "\<exists>mid. trace (invalidateOpenGL h w d s) = trace s @ mid \<and> WakeOne \<notin> set mid
      \<and> MutexLock RenderThread \<notin> set mid \<and> MutexUnlock RenderThread \<notin> set mid"
  by (simp add: invalidateOpenGL_def record_call_def Let_def)

lemma invalidateOpenGL_frame:
  "sleeping (invalidateOpenGL h w d s) = sleeping s"
  "m_windows (invalidateOpenGL h w d s) = m_windows s"
  "waiting (invalidateOpenGL h w d s) = waiting s"
  by (simp_all add: invalidateOpenGL_def record_call_def Let_def)

lemma invalidateOpenGL_trace_update:
  "invalidateOpenGL h w d (s\<lparr>trace := t\<rparr>) =
     (invalidateOpenGL h w d s)\<lparr>trace := t @ drop (length (trace s)) (trace (invalidateOpenGL h w d s))\<rparr>"
  by (simp add: invalidateOpenGL_def record_call_def Let_def)

lemma windowFor_Some_lt: "windowFor wof ts w = Some i \<Longrightarrow> i < length ts \<and> wof (ts ! i) = w"
  by (induction ts arbitrary: i) (auto split: if_splits)

lemma windowFor_None_iff: "windowFor wof ts w = None \<longleftrightarrow> w \<notin> wof ` set ts"
  by (induction ts) auto

lemma persistence_eq:
  "persistence h w d ws acc =
     (fst acc \<or> (\<exists>g \<in> set ws. (\<not> d \<or> gw_window g \<noteq> w) \<and> isPersistentSceneGraph (win h (gw_window g))),
      snd acc \<or> (\<exists>g \<in> set ws. (\<not> d \<or> gw_window g \<noteq> w) \<and> isPersistentOpenGLContext (win h (gw_window g))))"
  by (induction ws arbitrary: acc) auto

lemma mutex_holder_append:
  "mutex_holder (xs @ ys) m = mutex_holder ys (mutex_holder xs m)"
  by (induction xs m rule: mutex_holder.induct) simp_all

lemma sync_windows_Inr:
  "sync_windows ws s = Inr s' \<Longrightarrow> s' = s\<lparr>trace := trace s @ synced ws\<rparr>"
proof (induction ws arbitrary: s)
  case Nil
  then show ?case by (simp add: synced_def)
next
  case (Cons w ws)
  show ?case
  proof (cases "width (rw_size w) = 0 \<or> height (rw_size w) = 0")
    case True
    with Cons.prems have "sync_windows ws s = Inr s'" by simp
    from Cons.IH [OF this] True show ?thesis by (simp add: synced_def)
  next
    case False
    with Cons.prems have g: "gl s" by (auto split: if_splits)
    with False Cons.prems
    have "sync_windows ws (record_call [MakeCurrent (rw_window w), SyncSceneGraph (rw_window w)] s) = Inr s'"
      by simp
    from Cons.IH [OF this] False show ?thesis by (simp add: synced_def record_call_def)
  qed
qed

lemma render_windows_Inr:
  "render_windows h ws s = Inr s' \<Longrightarrow> s' = s\<lparr>trace := trace s @ rendered h ws\<rparr>"
proof (induction ws arbitrary: s)
  case Nil
  then show ?case by (simp add: rendered_def)
next
  case (Cons w ws)
  show ?case
  proof (cases "\<not> hasRenderer (win h (rw_window w)) \<or> width (rw_size w) = 0 \<or> height (rw_size w) = 0")
    case True
    with Cons.prems have "render_windows h ws s = Inr s'" by auto
    from Cons.IH [OF this] True show ?thesis by (auto simp add: rendered_def)
  next
    case False
    with Cons.prems have g: "gl s" by (auto split: if_splits)
    with False Cons.prems
    have "render_windows h ws
            (record_call [MakeCurrent (rw_window w), RenderSceneGraph (rw_window w) (rw_size w),
                          SwapBuffers (rw_window w), FireFrameSwapped (rw_window w)] s) = Inr s'"
      by simp
    from Cons.IH [OF this] False show ?thesis by (simp add: rendered_def record_call_def)
  qed
qed

lemma synced_set:
  "a \<in> set (synced ws) \<Longrightarrow>
     \<exists>r \<in> set ws. width (rw_size r) \<noteq> 0 \<and> height (rw_size r) \<noteq> 0
        \<and> (a = MakeCurrent (rw_window r) \<or> a = SyncSceneGraph (rw_window r))"
  by (auto simp add: synced_def)

lemma rendered_set:
  "a \<in> set (rendered h ws) \<Longrightarrow>
     \<exists>r \<in> set ws. width (rw_size r) \<noteq> 0 \<and> height (rw_size r) \<noteq> 0
        \<and> (a = MakeCurrent (rw_window r) \<or> a = RenderSceneGraph (rw_window r) (rw_size r)
            \<or> a = SwapBuffers (rw_window r) \<or> a = FireFrameSwapped (rw_window r))"
  by (auto simp add: rendered_def)

lemma sync_Inr:
  "sync s = Inr s' \<Longrightarrow>
     s' = s\<lparr>pendingUpdate := 0, waiting := False,
            trace := trace s @ [MutexLock RenderThread] @ synced (m_windows s)
                     @ [WakeOne, MutexUnlock RenderThread]\<rparr>"
  by (auto simp add: sync_def state_ops Let_def split: if_splits sum.splits dest!: sync_windows_Inr)

lemma syncAndRender_Inr:
  "syncAndRender h s = Inr s' \<Longrightarrow>
     m_windows s' = m_windows s \<and>
     trace s' = trace s
        @ (if pendingUpdate s AND SyncRequest \<noteq> 0
           then [MutexLock RenderThread] @ synced (m_windows s) @ [WakeOne, MutexUnlock RenderThread]
           else [])
        @ rendered h (m_windows s)"
  by (auto simp add: syncAndRender_def syncAndRender_rest_def postAnimate_def animate_post_def
         postEvent_gui_def
       split: if_splits sum.splits dest!: sync_Inr render_windows_Inr)

lemma distinct_window_record:
  "distinct (map rw_window ws) \<Longrightarrow> r \<in> set ws \<Longrightarrow> r' \<in> set ws \<Longrightarrow>
     rw_window r' = rw_window r \<Longrightarrow> r' = r"
  by (meson distinct_map inj_onD)

lemma zero_size_frame:
  "syncAndRender example_host zero_size_state =
     Inr (zero_size_state\<lparr>pendingUpdate := 0, waiting := False,
           trace := [MutexLock RenderThread, MakeCurrent 2, SyncSceneGraph 2, WakeOne,
                     MutexUnlock RenderThread, MakeCurrent 2,
                     RenderSceneGraph 2 \<lparr>width = 800, height = 600\<rparr>, SwapBuffers 2,
                     FireFrameSwapped 2]\<rparr>)"
  by (simp add: zero_size_state_def example_state_def QSGThreadedRenderLoop_def syncAndRender_def
        syncAndRender_rest_def postAnimate_def animate_wanted_def sync_def state_ops SyncRequest_def
        example_host_def example_window_def)

lemma Resize_existing_record:
  "windowFor rw_window (m_windows s) w = Some i \<Longrightarrow>
     event h (WM_Resize w sz) s
       = Inr (s\<lparr>m_windows := (m_windows s)[i := (m_windows s ! i)\<lparr>rw_size := sz\<rparr>]\<rparr>)"
  by (simp add: event_def)

text \<open>The assertion of \<^verbatim>\<open>maybeUpdate\<close> is its only failure.\<close>

lemma maybeUpdate_assertion:
  "maybeUpdate cur h w s = Inl e \<longleftrightarrow> e = AssertionFailure \<and> \<not> (cur = GuiThread \<or> guiIsLocked s)"
  by (auto simp add: maybeUpdate_def Let_def split: option.splits)

subsection \<open>Stretches of coordinator code\<close>

lemma seg_done_refl: "seg_done s s"
  by (simp add: seg_done_def gui_frame_def)

lemma seg_done_trans: "seg_done s0 s1 \<Longrightarrow> seg_done s1 s2 \<Longrightarrow> seg_done s0 s2"
  by (auto simp add: seg_done_def gui_frame_def)

lemma seg_done_wait: "seg_done s0 s1 \<Longrightarrow> seg_wait s1 s2 \<Longrightarrow> seg_wait s0 s2"
  by (fastforce simp add: seg_done_def seg_wait_def gui_frame_def filter_empty_conv)

lemma segments_ok_prefix: "seg_done s0 s1 \<Longrightarrow> segments_ok p s1 \<Longrightarrow> segments_ok p s0"
  by (cases p) (auto intro: seg_done_trans seg_done_wait)

lemma segments_ok_bind:
  "segments_ok p s0 \<Longrightarrow> (\<And>a s. segments_ok (f a s) s) \<Longrightarrow> segments_ok (bind p f) s0"
proof (induction p arbitrary: s0)
  case (Done a s)
  then show ?case by (auto intro: segments_ok_prefix)
next
  case (WaitCond s k)
  then show ?case by auto
next
  case (Yield s k)
  then show ?case by (auto intro: seg_done_trans)
next
  case (Abort e)
  then show ?case by simp
qed

lemma releaseResources_ok: "segments_ok (releaseResources w d s) s"
  by (simp add: releaseResources_def cond_wait_def state_ops seg_done_def seg_wait_def gui_frame_def Let_def)

lemma polishAndSync_ok: "segments_ok (polishAndSync h s) s"
  by (simp add: polishAndSync_def cond_wait_def state_ops seg_done_def seg_wait_def gui_frame_def Let_def)

lemma handleObscurity_ok: "seg_done s (handleObscurity h w s)"
  by (simp add: handleObscurity_def state_ops seg_done_def gui_frame_def Let_def)

lemma hide_ok: "segments_ok (hide h w s) s"
  unfolding hide_def
  by (rule segments_ok_bind)
     (auto intro: segments_ok_prefix [OF handleObscurity_ok] releaseResources_ok
           simp add: seg_done_def gui_frame_def)

lemma windowDestroyed_ok: "segments_ok (windowDestroyed h w s) s"
  unfolding windowDestroyed_def
  by (rule segments_ok_bind) (auto intro: hide_ok releaseResources_ok simp add: seg_done_refl)

lemma handleExposure_ok: "segments_ok (handleExposure h w s) s"
  unfolding handleExposure_def Let_def
  apply (rule segments_ok_bind)
   apply (rule segments_ok_prefix [OF _ polishAndSync_ok])
   apply (simp add: state_ops seg_done_def gui_frame_def)
  apply (simp add: state_ops seg_done_def gui_frame_def)
  done

lemma exposureChanged_ok: "segments_ok (exposureChanged h w s) s"
  by (simp add: exposureChanged_def handleExposure_ok handleObscurity_ok seg_done_refl)

lemma resize_ok: "segments_ok (resize h w sz s) s"
  unfolding resize_def
  by (auto simp add: seg_done_refl state_ops seg_done_def gui_frame_def
        intro!: segments_ok_prefix [OF _ polishAndSync_ok])

lemma maybeUpdate_gui_ok: "maybeUpdate GuiThread h w s = Inr s1 \<Longrightarrow> seg_done s s1"
  by (auto simp add: maybeUpdate_def state_ops seg_done_def gui_frame_def Let_def
        split: option.splits if_splits)

lemma grab_ok: "segments_ok (grab h w s) s"
  by (simp add: grab_def cond_wait_def state_ops seg_done_def seg_wait_def gui_frame_def Let_def)

lemma gui_event_handler_ok: "segments_ok (gui_event_handler h e s) s"
  by (cases e)
     (auto simp add: gui_event_handler_def seg_done_refl state_ops seg_done_def gui_frame_def Let_def
        dest: maybeUpdate_gui_ok split: sum.splits
        intro!: segments_ok_prefix [OF _ polishAndSync_ok])

subsection \<open>The protocol invariant\<close>

lemma SyncRequest_nonzero: "SyncRequest \<noteq> 0"
  by (simp add: SyncRequest_def)

lemma pu_sync_set: "(x OR SyncRequest) AND SyncRequest \<noteq> (0::2 word)"
  unfolding SyncRequest_def by (simp add: word_ao_absorbs)

lemma pu_repaint: "(x OR RepaintRequest) AND SyncRequest = x AND SyncRequest"
  unfolding SyncRequest_def RepaintRequest_def by (simp add: bit.conj_disj_distrib2)

lemma tokens_zero_iff:
  "tokens s = 0 \<longleftrightarrow> filter is_rendezvous (rt_queue s) = [] \<and> \<not> sync_pending s"
  by (simp add: tokens_def)

lemma seg_done_tokens:
  "seg_done s0 s \<Longrightarrow> tokens s0 = 0 \<Longrightarrow> tokens s = 0"
  by (auto simp add: seg_done_def gui_frame_def tokens_def sync_pending_def)

lemma seg_wait_tokens:
  "seg_wait s0 s \<Longrightarrow> tokens s0 = 0 \<Longrightarrow>
     tokens s = 1 \<and> \<not> sync_pending s \<and> (WM_RequestSync \<in> set (rt_queue s) \<longrightarrow> guiIsLocked s)"
  by (fastforce simp add: seg_wait_def gui_frame_def tokens_def sync_pending_def filter_empty_conv
        split: if_splits)

lemma tokens_zero_no_sync:
  "tokens s = 0 \<Longrightarrow> WM_RequestSync \<notin> set (rt_queue s) \<and> \<not> sync_pending s"
  by (fastforce simp add: tokens_def filter_empty_conv split: if_splits)

lemma settle_invariant:
  assumes ok: "segments_ok p s0"
    and t0: "tokens s0 = 0" and w0: "\<not> waiting s0"
    and st: "settle c p = Some c1"
  shows "protocol_invariant c1"
proof (cases p)
  case (Done u s)
  with ok have d: "seg_done s0 s" by simp
  have ts: "tokens s = 0" by (rule seg_done_tokens [OF d t0])
  have fr: "waiting s = waiting s0"
    using d by (simp_all add: seg_done_def)
  from st Done have c1: "c1 = c\<lparr>st := s, gui_rest := None\<rparr>" by (simp add: settle_def)
  show ?thesis
    using ts tokens_zero_no_sync [OF ts] fr w0
    by (simp add: protocol_invariant_def c1)
next
  case (WaitCond s k)
  with ok have d: "seg_wait s0 s" and k: "\<forall>s'. segments_ok (k s') s'" by simp_all
  have fr: "waiting s"
    using d by (simp_all add: seg_wait_def)
  from st WaitCond have c1: "c1 = c\<lparr>st := s, gui_rest := Some k\<rparr>" by (simp add: settle_def)
  show ?thesis
    using seg_wait_tokens [OF d t0] fr k
    by (simp add: protocol_invariant_def c1)
next
  case (Yield s k)
  with ok have d: "seg_done s0 s" and k: "\<forall>s'. segments_ok (k s') s'" by simp_all
  have ts: "tokens s = 0" by (rule seg_done_tokens [OF d t0])
  from st Yield have c1: "c1 = c\<lparr>st := s, gui_rest := Some k\<rparr>" by (simp add: settle_def)
  show ?thesis
    using ts tokens_zero_no_sync [OF ts] k
    by (simp add: protocol_invariant_def c1)
next
  case (Abort e)
  with st show ?thesis by (simp add: settle_def)
qed

lemma update_gui_ok: "update GuiThread h w s = Inr s1 \<Longrightarrow> seg_done s s1"
  by (simp add: update_def maybeUpdate_gui_ok)

lemma gui_call_prog_ok:
  assumes "gui_call_prog h call s = Some p" and "call \<noteq> Deliver_posted"
  shows "segments_ok p s"
  using assms
  by (cases call)
     (auto simp add: gui_call_prog_def hide_ok windowDestroyed_ok exposureChanged_ok resize_ok
        gui_event_handler_ok seg_done_def gui_frame_def show_window_def
        gui_animationStarted_def gui_animationStopped_def state_ops
        dest: update_gui_ok maybeUpdate_gui_ok split: sum.splits if_splits
        intro!: segments_ok_bind grab_ok)

lemma gui_step_invariant:
  assumes inv: "protocol_invariant c" and stp: "gui_step h call c = Some c1"
  shows "protocol_invariant c1"
proof -
  from stp obtain p where idle: "gui_rest c = None"
    and p: "gui_call_prog h call (st c) = Some p" and st: "settle c p = Some c1"
    by (auto simp add: gui_step_def split: option.splits)
  from inv idle have t0: "tokens (st c) = 0" and w0: "\<not> waiting (st c)"
    by (simp_all add: protocol_invariant_def)
  show ?thesis
  proof (cases "call = Deliver_posted")
    case False
    from settle_invariant [OF gui_call_prog_ok [OF p False] t0 w0 st] show ?thesis .
  next
    case True
    with p obtain e q where q: "gui_queue (st c) = e # q"
      and pe: "p = gui_event_handler h e ((st c)\<lparr>gui_queue := q\<rparr>)"
      by (auto simp add: gui_call_prog_def split: list.splits)
    have t1: "tokens ((st c)\<lparr>gui_queue := q\<rparr>) = 0" using t0 by (simp add: tokens_def sync_pending_def)
    show ?thesis
      by (rule settle_invariant [OF gui_event_handler_ok t1 _ st [unfolded pe]])
         (use w0 in simp)
  qed
qed

lemma gui_resume_invariant:
  assumes inv: "protocol_invariant c" and stp: "gui_resume c = Some c1"
  shows "protocol_invariant c1"
proof -
  from stp obtain k where k: "gui_rest c = Some k" and w0: "\<not> waiting (st c)"
    and st: "settle c (k (st c)) = Some c1"
    by (auto simp add: gui_resume_def split: option.splits if_splits)
  from inv k w0 have ok: "segments_ok (k (st c)) (st c)" and t0: "tokens (st c) = 0"
    by (simp_all add: protocol_invariant_def)
  from settle_invariant [OF ok t0 w0 st] show ?thesis .
qed

lemma protocol_invariant_same:
  assumes "protocol_invariant c"
    and "gui_rest c1 = gui_rest c" "waiting (st c1) = waiting (st c)"
    and "rt_queue (st c1) = rt_queue (st c)" "pendingUpdate (st c1) = pendingUpdate (st c)"
    and "guiIsLocked (st c1) = guiIsLocked (st c)"
  shows "protocol_invariant c1"
  using assms by (simp add: protocol_invariant_def tokens_def sync_pending_def)

lemma invalidateOpenGL_protocol:
  "waiting (invalidateOpenGL h w d s) = waiting s"
  "rt_queue (invalidateOpenGL h w d s) = rt_queue s"
  "pendingUpdate (invalidateOpenGL h w d s) = pendingUpdate s"
  "guiIsLocked (invalidateOpenGL h w d s) = guiIsLocked s"
  "animationRequestsPending (invalidateOpenGL h w d s) = animationRequestsPending s"
  "gui_queue (invalidateOpenGL h w d s) = gui_queue s"
  "sleeping (invalidateOpenGL h w d s) = sleeping s"
  by (simp_all add: invalidateOpenGL_def record_call_def Let_def)

lemma event_protocol:
  assumes ev: "event h e s = Inr s1"
  shows "rt_queue s1 = rt_queue s \<and> guiIsLocked s1 = guiIsLocked s
       \<and> animationRequestsPending s1 = animationRequestsPending s
       \<and> gui_queue s1 = gui_queue s
       \<and> (if e = WM_RequestSync
           then waiting s1 = waiting s \<and> (sync_pending s1 \<longleftrightarrow> sync_pending s \<or> m_windows s \<noteq> [])
           else pendingUpdate s1 = pendingUpdate s
                \<and> (if is_rendezvous e then \<not> waiting s1 else waiting s1 = waiting s))"
proof (cases e)
  case (WM_TryRelease w d)
  from ev have "event h (WM_TryRelease w d) s = Inr s1" unfolding WM_TryRelease .
  then show ?thesis unfolding WM_TryRelease
    by (cases "m_windows s = []"; cases "sleeping s")
       (auto simp add: event_def state_ops Let_def invalidateOpenGL_protocol)
next
  case WM_RequestSync
  from ev have "event h WM_RequestSync s = Inr s1" unfolding WM_RequestSync .
  then show ?thesis unfolding WM_RequestSync
    by (cases "m_windows s = []"; cases "sleeping s")
       (auto simp add: event_def state_ops Let_def sync_pending_def pu_sync_set SyncRequest_nonzero)
next
  case (WM_Grab w)
  from ev have "event h (WM_Grab w) s = Inr s1" unfolding WM_Grab .
  then show ?thesis unfolding WM_Grab
    by (cases "windowFor rw_window (m_windows s) w")
       (auto simp add: event_def state_ops Let_def split: if_splits)
next
  case (WM_Obscure w)
  from ev have "event h (WM_Obscure w) s = Inr s1" unfolding WM_Obscure .
  then show ?thesis unfolding WM_Obscure
    by (cases "sleeping s"; cases "removeFirst rw_window (m_windows s) w = []")
       (auto simp add: event_def state_ops Let_def)
next
  case (WM_Expose w sz)
  from ev have "event h (WM_Expose w sz) s = Inr s1" unfolding WM_Expose .
  then show ?thesis unfolding WM_Expose
    by (auto simp add: event_def split: if_splits)
next
  case (WM_Resize w sz)
  from ev have "event h (WM_Resize w sz) s = Inr s1" unfolding WM_Resize .
  then show ?thesis unfolding WM_Resize
    by (auto simp add: event_def split: option.splits)
next
  case Slot_animationStarted
  from ev have "event h Slot_animationStarted s = Inr s1" unfolding Slot_animationStarted .
  then show ?thesis unfolding Slot_animationStarted
    by (cases "sleeping s") (auto simp add: event_def state_ops rt_animationStarted_def Let_def)
next
  case Slot_animationStopped
  from ev have "event h Slot_animationStopped s = Inr s1" unfolding Slot_animationStopped .
  then show ?thesis unfolding Slot_animationStopped
    by (auto simp add: event_def rt_animationStopped_def)
qed

lemma sync_windows_protocol:
  "sync_windows ws s = Inr s1 \<Longrightarrow>
     rt_queue s1 = rt_queue s \<and> guiIsLocked s1 = guiIsLocked s
     \<and> animationRequestsPending s1 = animationRequestsPending s \<and> gui_queue s1 = gui_queue s
     \<and> waiting s1 = waiting s \<and> pendingUpdate s1 = pendingUpdate s"
  by (induction ws arbitrary: s) (auto simp add: record_call_def split: if_splits)

lemma render_windows_protocol:
  "render_windows h ws s = Inr s1 \<Longrightarrow>
     rt_queue s1 = rt_queue s \<and> guiIsLocked s1 = guiIsLocked s
     \<and> animationRequestsPending s1 = animationRequestsPending s \<and> gui_queue s1 = gui_queue s
     \<and> waiting s1 = waiting s \<and> pendingUpdate s1 = pendingUpdate s"
  by (induction ws arbitrary: s) (auto simp add: record_call_def split: if_splits)

lemma sync_protocol:
  "sync s = Inr s1 \<Longrightarrow>
     guiIsLocked s \<and> rt_queue s1 = rt_queue s \<and> guiIsLocked s1 = guiIsLocked s
     \<and> animationRequestsPending s1 = animationRequestsPending s \<and> gui_queue s1 = gui_queue s
     \<and> \<not> waiting s1 \<and> pendingUpdate s1 = 0"
  by (auto simp add: sync_def state_ops Let_def split: if_splits sum.splits
        dest!: sync_windows_protocol)

lemma animate_post_protocol:
  "rt_queue (animate_post r s) = rt_queue s" "guiIsLocked (animate_post r s) = guiIsLocked s"
  "waiting (animate_post r s) = waiting s" "pendingUpdate (animate_post r s) = pendingUpdate s"
  "m_windows (animate_post r s) = m_windows s" "gl (animate_post r s) = gl s"
  "trace (animate_post r s) = trace s"
  by (simp_all add: animate_post_def postEvent_gui_def)

lemma postAnimate_protocol:
  "rt_queue (postAnimate s) = rt_queue s" "guiIsLocked (postAnimate s) = guiIsLocked s"
  "waiting (postAnimate s) = waiting s" "pendingUpdate (postAnimate s) = pendingUpdate s"
  "m_windows (postAnimate s) = m_windows s" "gl (postAnimate s) = gl s"
  "trace (postAnimate s) = trace s"
  by (simp_all add: postAnimate_def animate_post_protocol)

lemma syncAndRender_rest_protocol:
  assumes "syncAndRender_rest h s = Inr s1"
  shows "rt_queue s1 = rt_queue s \<and> guiIsLocked s1 = guiIsLocked s
     \<and> animationRequestsPending s1 = animationRequestsPending s
     \<and> gui_queue s1 = gui_queue s
     \<and> (if sync_pending s then guiIsLocked s \<and> \<not> waiting s1 \<and> pendingUpdate s1 = 0
         else waiting s1 = waiting s \<and> pendingUpdate s1 = pendingUpdate s)"
  using assms
  by (auto simp add: syncAndRender_rest_def sync_pending_def
        split: sum.splits if_splits dest!: sync_protocol render_windows_protocol)

lemma syncAndRender_protocol:
  assumes "syncAndRender h s = Inr s1"
  shows "rt_queue s1 = rt_queue s \<and> guiIsLocked s1 = guiIsLocked s
     \<and> animationRequestsPending s1 = animationRequestsPending (postAnimate s)
     \<and> gui_queue s1 = gui_queue (postAnimate s)
     \<and> (if sync_pending s then guiIsLocked s \<and> \<not> waiting s1 \<and> pendingUpdate s1 = 0
         else waiting s1 = waiting s \<and> pendingUpdate s1 = pendingUpdate s)"
  using syncAndRender_rest_protocol [of h "postAnimate s" s1] assms
  by (auto simp add: syncAndRender_def sync_pending_def postAnimate_protocol split: if_splits)

lemma initializeOpenGL_protocol:
  "initializeOpenGL s = Inr s1 \<Longrightarrow>
     rt_queue s1 = rt_queue s \<and> guiIsLocked s1 = guiIsLocked s
     \<and> animationRequestsPending s1 = animationRequestsPending s \<and> gui_queue s1 = gui_queue s
     \<and> waiting s1 = waiting s \<and> pendingUpdate s1 = pendingUpdate s
     \<and> m_windows s1 = m_windows s"
proof (cases "m_windows s")
  case Nil
  then show "initializeOpenGL s = Inr s1 \<Longrightarrow> ?thesis" by (simp add: initializeOpenGL_def)
next
  case (Cons w ws)
  then show "initializeOpenGL s = Inr s1 \<Longrightarrow> ?thesis"
    by (cases "width (rw_size w) \<le> 0 \<or> height (rw_size w) \<le> 0")
       (auto simp add: initializeOpenGL_def record_call_def Let_def)
qed

lemma prepare_frame_entry:
  assumes "prepare_frame s = Inr s2"
  shows "frame_entry s s2 \<and> (m_windows s \<noteq> [] \<or> gl s \<longrightarrow> gl s2)"
proof (cases "gl s")
  case True
  with assms show ?thesis
    by (cases "sgReady s") (auto simp add: prepare_frame_def frame_entry_def record_call_def)
next
  case False
  with assms obtain s0 where i: "initializeOpenGL s = Inr s0"
    and r: "s2 = (if \<not> sgReady s0 then record_call [SgInitialize] (s0\<lparr>sgReady := True\<rparr>) else s0)"
    by (auto simp add: prepare_frame_def split: sum.splits)
  have g: "gl s0" using i
    by (cases "m_windows s") (auto simp add: initializeOpenGL_def record_call_def Let_def)
  from initializeOpenGL_protocol [OF i] r g show ?thesis
    by (simp add: frame_entry_def record_call_def)
qed

lemma run_frame_entry:
  assumes "run_frame h s = Inr s1"
  shows "\<exists>s2. frame_entry s s2 \<and> syncAndRender h s2 = Inr s1"
proof -
  from assms obtain s2 where p: "prepare_frame s = Inr s2" and r: "syncAndRender h s2 = Inr s1"
    by (auto simp add: run_frame_def split: sum.splits)
  from prepare_frame_entry [OF p] r show ?thesis by blast
qed

lemma finish_frame_invariant:
  assumes inv: "protocol_invariant (c\<lparr>st := s2\<rparr>)" and ff: "finish_frame h c s2 = Some c1"
  shows "protocol_invariant c1"
proof -
  from ff obtain s1 where sr: "syncAndRender_rest h s2 = Inr s1"
    and c1: "c1 = c\<lparr>st := s1, rt_pc := Events\<rparr>"
    by (auto simp add: finish_frame_def split: sum.splits)
  note p = syncAndRender_rest_protocol [OF sr]
  show ?thesis
  proof (cases "sync_pending s2")
    case False
    with p inv show ?thesis
      by (simp add: c1 protocol_invariant_def tokens_def sync_pending_def)
  next
    case True
    with inv have "filter is_rendezvous (rt_queue s2) = []"
      by (simp add: protocol_invariant_def tokens_def)
    with True p inv show ?thesis
      by (simp add: c1 protocol_invariant_def tokens_def sync_pending_def filter_empty_conv)
  qed
qed

lemma prepare_frame_invariant:
  assumes inv: "protocol_invariant c" and pf: "prepare_frame (st c) = Inr s2"
  shows "protocol_invariant (c\<lparr>st := s2, rt_pc := pc\<rparr>)"
  by (rule protocol_invariant_same [OF inv])
     (use prepare_frame_entry [OF pf] in \<open>simp_all add: frame_entry_def\<close>)

lemma leave_exec_invariant:
  "protocol_invariant (c\<lparr>st := s1\<rparr>) \<Longrightarrow> protocol_invariant (leave_exec c s1)"
  by (erule protocol_invariant_same) (simp_all add: leave_exec_def)

lemma dispatch_invariant:
  assumes inv: "protocol_invariant c" and q: "rt_queue (st c) = e # q"
    and ev: "event h e ((st c)\<lparr>rt_queue := q\<rparr>) = Inr s1"
  shows "protocol_invariant (c\<lparr>st := s1\<rparr>)"
proof -
  note p = event_protocol [OF ev]
  show ?thesis
  proof (cases "is_rendezvous e")
    case False
    then have "e \<noteq> WM_RequestSync" by auto
    with False p q inv show ?thesis
      by (auto simp add: protocol_invariant_def tokens_def sync_pending_def)
  next
    case True
    with inv q have rest: "filter is_rendezvous q = []" and np: "\<not> sync_pending (st c)"
      and blocked: "gui_rest c \<noteq> None" "waiting (st c)"
      by (auto simp add: protocol_invariant_def tokens_def split: if_splits)
    from rest have nq: "WM_RequestSync \<notin> set q" by (auto simp add: filter_empty_conv)
    show ?thesis
    proof (cases "e = WM_RequestSync")
      case True
      with p q inv rest np blocked nq show ?thesis
        by (auto simp add: protocol_invariant_def tokens_def sync_pending_def)
    next
      case False
      with \<open>is_rendezvous e\<close> p q inv rest np blocked nq show ?thesis
        by (auto simp add: protocol_invariant_def tokens_def sync_pending_def)
    qed
  qed
qed

lemma requestRepaint_protocol:
  "rt_queue (requestRepaint s) = rt_queue s \<and> guiIsLocked (requestRepaint s) = guiIsLocked s
   \<and> animationRequestsPending (requestRepaint s) = animationRequestsPending s
   \<and> gui_queue (requestRepaint s) = gui_queue s \<and> waiting (requestRepaint s) = waiting s
   \<and> sync_pending (requestRepaint s) = sync_pending s"
  by (cases "sleeping s"; cases "m_windows s = []")
     (simp_all add: requestRepaint_def state_ops Let_def sync_pending_def pu_repaint)

lemma maybeUpdate_rt_protocol:
  "maybeUpdate RenderThread h w s = Inr s1 \<Longrightarrow>
     s1 = s \<or> s1 = s\<lparr>gui_queue := gui_queue s @ [WM_UpdateLater w]\<rparr>"
  by (auto simp add: maybeUpdate_def postEvent_gui_def split: if_splits option.splits)

lemma rt_step_invariant:
  assumes inv: "protocol_invariant c" and stp: "rt_step h choice c = Some c1"
  shows "protocol_invariant c1"
proof (cases choice)
  case Proceed
  show ?thesis
  proof (cases "rt_pc c")
    case NotStarted
    with Proceed stp inv show ?thesis
      by (auto simp add: rt_step_def Let_def split: if_splits elim!: protocol_invariant_same)
  next
    case LoopTop
    show ?thesis
    proof (cases "\<not> shouldExit (st c) \<and> m_windows (st c) \<noteq> []")
      case True
      with LoopTop Proceed stp obtain s2 where pf: "prepare_frame (st c) = Inr s2"
        and c1: "c1 = c\<lparr>st := s2, rt_pc := AnimateLoad\<rparr> \<or> finish_frame h c s2 = Some c1"
        by (auto simp add: rt_step_def Let_def split: sum.splits if_splits)
      from c1 show ?thesis
      proof
        assume "c1 = c\<lparr>st := s2, rt_pc := AnimateLoad\<rparr>"
        with prepare_frame_invariant [OF inv pf] show ?thesis by simp
      next
        assume ff: "finish_frame h c s2 = Some c1"
        have "protocol_invariant (c\<lparr>st := s2\<rparr>)"
          using prepare_frame_invariant [OF inv pf, of "rt_pc c"] by simp
        from finish_frame_invariant [OF this ff] show ?thesis .
      qed
    next
      case False
      with LoopTop Proceed stp inv show ?thesis
        by (auto simp add: rt_step_def Let_def split: if_splits elim!: protocol_invariant_same)
    qed
  next
    case AnimateLoad
    with Proceed stp inv show ?thesis
      by (auto simp add: rt_step_def Let_def elim!: protocol_invariant_same)
  next
    case (AnimateStore r)
    with Proceed stp have ff: "finish_frame h c (animate_post r (st c)) = Some c1"
      by (simp add: rt_step_def Let_def)
    have "protocol_invariant (c\<lparr>st := animate_post r (st c)\<rparr>)"
      by (rule protocol_invariant_same [OF inv]) (simp_all add: animate_post_protocol)
    from finish_frame_invariant [OF this ff] show ?thesis .
  next
    case Events
    with Proceed stp inv show ?thesis
      by (auto simp add: rt_step_def Let_def record_call_def elim!: protocol_invariant_same)
  next
    case AfterEvents
    with Proceed stp inv show ?thesis
      by (auto simp add: rt_step_def Let_def leave_exec_def split: if_splits elim!: protocol_invariant_same)
  next
    case Asleep
    with Proceed stp show ?thesis by (simp add: rt_step_def Let_def)
  qed
next
  case Dispatch
  with stp obtain e q s1 where q: "rt_queue (st c) = e # q"
    and ev: "event h e ((st c)\<lparr>rt_queue := q\<rparr>) = Inr s1"
    and c1: "c1 = c\<lparr>st := s1\<rparr> \<or> c1 = leave_exec c s1"
    by (auto simp add: rt_step_def Let_def split: list.splits if_splits sum.splits)
  from dispatch_invariant [OF inv q ev] c1 show ?thesis
    by (auto intro: leave_exec_invariant)
next
  case (Hook_update w)
  with stp have "c1 = c\<lparr>st := requestRepaint (st c)\<rparr>"
    by (auto simp add: rt_step_def Let_def update_def split: if_splits)
  with inv requestRepaint_protocol [of "st c"] show ?thesis
    by (simp add: protocol_invariant_def tokens_def)
next
  case (Hook_maybeUpdate w)
  with stp obtain s1 where "maybeUpdate RenderThread h w (st c) = Inr s1" "c1 = c\<lparr>st := s1\<rparr>"
    by (auto simp add: rt_step_def Let_def split: if_splits sum.splits)
  with maybeUpdate_rt_protocol [of h w "st c" s1] inv show ?thesis
    by (auto simp add: protocol_invariant_def tokens_def sync_pending_def)
qed

lemma step_invariant:
  "protocol_invariant c \<Longrightarrow> step l c = Some c1 \<Longrightarrow> protocol_invariant c1"
  by (cases l) (auto simp add: step_def intro: gui_step_invariant gui_resume_invariant rt_step_invariant)

lemma initial_invariant: "protocol_invariant (initial_config qgetenv toInt)"
  by (simp add: protocol_invariant_def initial_config_def QSGThreadedRenderLoop_def tokens_def
        sync_pending_def)

lemma reachable_invariant: "reachable c \<Longrightarrow> protocol_invariant c"
  by (induction rule: reachable.induct) (auto intro: initial_invariant step_invariant)

subsection \<open>Assertions and totality of the frame\<close>

lemma sync_windows_gl:
  "gl s \<Longrightarrow> \<exists>s1. sync_windows ws s = Inr s1"
  by (induction ws arbitrary: s) (auto simp add: record_call_def)

lemma render_windows_gl:
  "gl s \<Longrightarrow> \<exists>s1. render_windows h ws s = Inr s1"
  by (induction ws arbitrary: s) (auto simp add: record_call_def)

lemma sync_windows_no_assertion: "sync_windows ws s \<noteq> Inl AssertionFailure"
  by (induction ws arbitrary: s) auto

lemma render_windows_no_assertion: "render_windows h ws s \<noteq> Inl AssertionFailure"
  by (induction ws arbitrary: s) auto

lemma sync_windows_frame:
  "sync_windows ws s = Inr s1 \<Longrightarrow> gl s1 = gl s"
  by (induction ws arbitrary: s) (auto simp add: record_call_def split: if_splits)

lemma sync_assertion: "sync s = Inl AssertionFailure \<longleftrightarrow> \<not> guiIsLocked s"
  by (auto simp add: sync_def state_ops Let_def sync_windows_no_assertion split: sum.splits)

lemma syncAndRender_rest_assertion:
  "syncAndRender_rest h s = Inl AssertionFailure \<longleftrightarrow> sync_pending s \<and> \<not> guiIsLocked s"
proof (cases "sync_pending s")
  case True
  then have p: "pendingUpdate s AND SyncRequest \<noteq> 0" by (simp add: sync_pending_def)
  show ?thesis
  proof (cases "sync s")
    case (Inl e)
    with sync_assertion [of s] True p show ?thesis
      by (cases e) (auto simp add: syncAndRender_rest_def)
  next
    case (Inr s2)
    with sync_assertion [of s] True p show ?thesis
      by (auto simp add: syncAndRender_rest_def render_windows_no_assertion)
  qed
next
  case False
  then have p: "\<not> pendingUpdate s AND SyncRequest \<noteq> 0" by (simp add: sync_pending_def)
  with False show ?thesis
    by (simp add: syncAndRender_rest_def render_windows_no_assertion)
qed

lemma syncAndRender_assertion:
  "syncAndRender h s = Inl AssertionFailure \<longleftrightarrow> sync_pending s \<and> \<not> guiIsLocked s"
  by (simp add: syncAndRender_def syncAndRender_rest_assertion sync_pending_def postAnimate_protocol)

lemma prepare_frame_no_assertion: "prepare_frame s \<noteq> Inl AssertionFailure"
  by (cases "m_windows s")
     (auto simp add: prepare_frame_def initializeOpenGL_def Let_def split: sum.splits)

lemma run_frame_no_assertion:
  assumes "sync_pending s \<longrightarrow> guiIsLocked s"
  shows "run_frame h s \<noteq> Inl AssertionFailure"
proof (cases "prepare_frame s")
  case (Inl e)
  with prepare_frame_no_assertion [of s] show ?thesis by (auto simp add: run_frame_def)
next
  case (Inr s2)
  from prepare_frame_entry [OF Inr]
  have "sync_pending s2 = sync_pending s \<and> guiIsLocked s2 = guiIsLocked s"
    by (simp add: frame_entry_def sync_pending_def)
  with Inr assms show ?thesis by (simp add: run_frame_def syncAndRender_assertion)
qed

text \<open>With a context, and with the GUI locked when a sync is requested, the frame returns.\<close>

lemma sync_total:
  assumes "guiIsLocked s" and "gl s"
  shows "sync s = Inr (s\<lparr>pendingUpdate := 0, waiting := False,
            trace := trace s @ [MutexLock RenderThread] @ synced (m_windows s)
                     @ [WakeOne, MutexUnlock RenderThread]\<rparr>)"
proof -
  have "gl ((mutex_lock RenderThread s)\<lparr>pendingUpdate := 0\<rparr>)"
    using assms(2) by (simp add: state_ops)
  from sync_windows_gl [OF this, of "m_windows s"] obtain s2
    where w: "sync_windows (m_windows s) ((mutex_lock RenderThread s)\<lparr>pendingUpdate := 0\<rparr>) = Inr s2"
    by blast
  with assms(1) have "sync s = Inr (mutex_unlock RenderThread (wakeOne s2))"
    by (simp add: sync_def Let_def state_ops)
  with sync_Inr [of s] show ?thesis by simp
qed

lemma syncAndRender_rest_total:
  assumes "gl s" and "sync_pending s \<longrightarrow> guiIsLocked s"
  shows "\<exists>s1. syncAndRender_rest h s = Inr s1"
proof (cases "sync_pending s")
  case True
  with assms have l: "guiIsLocked s" by simp
  let ?s2 = "s\<lparr>pendingUpdate := 0, waiting := False,
            trace := trace s @ [MutexLock RenderThread] @ synced (m_windows s)
                     @ [WakeOne, MutexUnlock RenderThread]\<rparr>"
  have "gl ?s2" using assms(1) by simp
  from render_windows_gl [OF this, of h "m_windows ?s2"] sync_total [OF l assms(1)] True
  show ?thesis by (simp add: syncAndRender_rest_def sync_pending_def)
next
  case False
  with render_windows_gl [OF assms(1), of h "m_windows s"] show ?thesis
    by (simp add: syncAndRender_rest_def sync_pending_def)
qed

lemma run_frame_total:
  assumes "m_windows s \<noteq> []" and "sync_pending s \<longrightarrow> guiIsLocked s"
  shows "\<exists>s1. run_frame h s = Inr s1"
proof -
  from assms(1) have "\<exists>s0. initializeOpenGL s = Inr s0"
    by (cases "m_windows s") (simp_all add: initializeOpenGL_def Let_def)
  then obtain s2 where p: "prepare_frame s = Inr s2"
    by (cases "gl s") (auto simp add: prepare_frame_def)
  from prepare_frame_entry [OF p] assms
  have g: "gl s2" and l: "sync_pending s2 \<longrightarrow> guiIsLocked s2"
    by (simp_all add: frame_entry_def sync_pending_def)
  from syncAndRender_rest_total [of "postAnimate s2" h] g l
  obtain s1 where "syncAndRender h s2 = Inr s1"
    by (auto simp add: syncAndRender_def postAnimate_protocol sync_pending_def)
  with p show ?thesis by (simp add: run_frame_def)
qed

lemma mutex_holder_synced: "mutex_holder (synced ws) m = m"
  by (induction ws) (auto simp add: synced_def)

subsection \<open>The GUI thread returns unlocked\<close>

lemma returns_unlocked_bind:
  "returns_unlocked p \<Longrightarrow> (\<And>a s. idle_ok s \<Longrightarrow> returns_unlocked (f a s))
     \<Longrightarrow> returns_unlocked (bind p f)"
  by (induction p) auto

lemmas holder_simps = idle_ok_def mutex_holder_append state_ops Let_def

lemma releaseResources_unlocked: "idle_ok s \<Longrightarrow> returns_unlocked (releaseResources w d s)"
  by (simp add: releaseResources_def cond_wait_def holder_simps)

lemma polishAndSync_unlocked: "idle_ok s \<Longrightarrow> returns_unlocked (polishAndSync h s)"
proof -
  have p: "mutex_holder (map (\<lambda>w. PolishItems (gw_window w)) ws) m = m" for ws m
    by (induction ws) auto
  show "idle_ok s \<Longrightarrow> returns_unlocked (polishAndSync h s)"
    by (simp add: polishAndSync_def cond_wait_def holder_simps p)
qed

lemma handleObscurity_unlocked: "idle_ok s \<Longrightarrow> idle_ok (handleObscurity h w s)"
  by (simp add: handleObscurity_def holder_simps)

lemma hide_unlocked: "idle_ok s \<Longrightarrow> returns_unlocked (hide h w s)"
  unfolding hide_def
  apply (rule returns_unlocked_bind)
   apply (rule releaseResources_unlocked)
   apply (simp add: handleObscurity_unlocked)
  apply (simp add: idle_ok_def)
  done

lemma windowDestroyed_unlocked: "idle_ok s \<Longrightarrow> returns_unlocked (windowDestroyed h w s)"
  unfolding windowDestroyed_def
  by (rule returns_unlocked_bind) (auto intro: hide_unlocked releaseResources_unlocked)

lemma handleExposure_unlocked: "idle_ok s \<Longrightarrow> returns_unlocked (handleExposure h w s)"
  unfolding handleExposure_def Let_def
  apply (rule returns_unlocked_bind)
   apply (rule polishAndSync_unlocked)
   apply (simp add: holder_simps)
  apply (simp add: holder_simps)
  done

lemma exposureChanged_unlocked: "idle_ok s \<Longrightarrow> returns_unlocked (exposureChanged h w s)"
  by (simp add: exposureChanged_def handleExposure_unlocked handleObscurity_unlocked)

lemma resize_unlocked: "idle_ok s \<Longrightarrow> returns_unlocked (resize h w sz s)"
  unfolding resize_def
  by (auto intro!: polishAndSync_unlocked simp add: holder_simps)

lemma maybeUpdate_unlocked: "maybeUpdate GuiThread h w s = Inr s1 \<Longrightarrow> idle_ok s \<Longrightarrow> idle_ok s1"
  by (auto simp add: maybeUpdate_def holder_simps split: option.splits if_splits)

lemma grab_unlocked: "idle_ok s \<Longrightarrow> returns_unlocked (grab h w s)"
  by (simp add: grab_def cond_wait_def holder_simps)

lemma gui_event_handler_unlocked: "idle_ok s \<Longrightarrow> returns_unlocked (gui_event_handler h e s)"
  by (cases e)
     (auto simp add: gui_event_handler_def holder_simps
        dest: maybeUpdate_unlocked [unfolded idle_ok_def] split: sum.splits
        intro!: polishAndSync_unlocked [unfolded idle_ok_def])

lemma gui_call_prog_unlocked:
  assumes "gui_call_prog h call s = Some p" and "idle_ok s"
  shows "returns_unlocked p"
proof (cases call)
  case (Call_grab w)
  with assms show ?thesis
    by (auto simp add: gui_call_prog_def intro!: returns_unlocked_bind grab_unlocked)
next
  case Deliver_posted
  with assms show ?thesis
    by (auto simp add: gui_call_prog_def idle_ok_def split: list.splits
          intro!: gui_event_handler_unlocked [unfolded idle_ok_def])
next
  case (Call_update w)
  with assms show ?thesis
    by (auto simp add: gui_call_prog_def update_def split: sum.splits dest: maybeUpdate_unlocked)
next
  case (Call_maybeUpdate w)
  with assms show ?thesis
    by (auto simp add: gui_call_prog_def split: sum.splits dest: maybeUpdate_unlocked)
qed (use assms in \<open>auto simp add: gui_call_prog_def hide_unlocked windowDestroyed_unlocked
       exposureChanged_unlocked resize_unlocked gui_event_handler_unlocked
       show_window_def gui_animationStarted_def gui_animationStopped_def holder_simps
       split: if_splits\<close>)

lemma settle_unlocked:
  assumes "returns_unlocked p" and "settle c p = Some c1"
  shows "unlocked_invariant c1"
  using assms by (cases p) (auto simp add: settle_def unlocked_invariant_def idle_ok_def)

lemma gui_step_unlocked:
  assumes inv: "unlocked_invariant c" and stp: "gui_step h call c = Some c1"
  shows "unlocked_invariant c1"
proof -
  from stp obtain p where idle: "gui_rest c = None"
    and p: "gui_call_prog h call (st c) = Some p" and st: "settle c p = Some c1"
    by (auto simp add: gui_step_def split: option.splits)
  from inv idle have "idle_ok (st c)" by (simp add: unlocked_invariant_def idle_ok_def)
  from settle_unlocked [OF gui_call_prog_unlocked [OF p this] st] show ?thesis .
qed

lemma gui_resume_unlocked:
  assumes inv: "unlocked_invariant c" and stp: "gui_resume c = Some c1"
  shows "unlocked_invariant c1"
proof -
  from stp obtain k where k: "gui_rest c = Some k"
    and st: "settle c (k (st c)) = Some c1"
    by (auto simp add: gui_resume_def split: option.splits if_splits)
  from inv k have "returns_unlocked (k (st c))" by (simp add: unlocked_invariant_def)
  from settle_unlocked [OF this st] show ?thesis .
qed

lemma mutex_holder_rendered: "mutex_holder (rendered h ws) m = m"
  by (induction ws) (auto simp add: rendered_def)

lemma unlocked_invariant_same:
  assumes "unlocked_invariant c" and "gui_rest c1 = gui_rest c"
    and "guiIsLocked (st c1) = guiIsLocked (st c)"
    and "mutex_holder (trace (st c1)) None = None"
  shows "unlocked_invariant c1"
  using assms by (simp add: unlocked_invariant_def)

lemma invalidateOpenGL_holder:
  "mutex_holder (trace (invalidateOpenGL h w d s)) m = mutex_holder (trace s) m"
  by (simp add: invalidateOpenGL_def record_call_def Let_def mutex_holder_append)

lemma event_holder:
  assumes ev: "event h e s = Inr s1" and h0: "mutex_holder (trace s) None = None"
  shows "mutex_holder (trace s1) None = None"
proof (cases e)
  case (WM_TryRelease w d)
  from ev have "event h (WM_TryRelease w d) s = Inr s1" unfolding WM_TryRelease .
  with h0 show ?thesis
    by (cases "m_windows s = []"; cases "sleeping s")
       (auto simp add: event_def state_ops Let_def mutex_holder_append invalidateOpenGL_protocol
          invalidateOpenGL_holder)
next
  case WM_RequestSync
  from ev have "event h WM_RequestSync s = Inr s1" unfolding WM_RequestSync .
  with h0 show ?thesis
    by (cases "m_windows s = []"; cases "sleeping s")
       (auto simp add: event_def state_ops Let_def mutex_holder_append)
next
  case (WM_Obscure w)
  from ev have "event h (WM_Obscure w) s = Inr s1" unfolding WM_Obscure .
  with h0 show ?thesis
    by (cases "sleeping s"; cases "removeFirst rw_window (m_windows s) w = []")
       (auto simp add: event_def state_ops Let_def mutex_holder_append)
next
  case (WM_Grab w)
  from ev have "event h (WM_Grab w) s = Inr s1" unfolding WM_Grab .
  with h0 show ?thesis
    by (cases "windowFor rw_window (m_windows s) w")
       (auto simp add: event_def state_ops Let_def mutex_holder_append split: if_splits)
next
  case Slot_animationStarted
  from ev have "event h Slot_animationStarted s = Inr s1" unfolding Slot_animationStarted .
  with h0 show ?thesis
    by (cases "sleeping s")
       (auto simp add: event_def state_ops Let_def mutex_holder_append rt_animationStarted_def)
next
  case Slot_animationStopped
  from ev have "event h Slot_animationStopped s = Inr s1" unfolding Slot_animationStopped .
  with h0 show ?thesis
    by (auto simp add: event_def rt_animationStopped_def)
next
  case (WM_Expose w sz)
  from ev have "event h (WM_Expose w sz) s = Inr s1" unfolding WM_Expose .
  with h0 show ?thesis
    by (auto simp add: event_def split: if_splits)
next
  case (WM_Resize w sz)
  from ev have "event h (WM_Resize w sz) s = Inr s1" unfolding WM_Resize .
  with h0 show ?thesis
    by (auto simp add: event_def split: option.splits)
qed

lemma initializeOpenGL_holder:
  assumes "initializeOpenGL s = Inr s1"
  shows "mutex_holder (trace s1) m = mutex_holder (trace s) m"
proof (cases "m_windows s")
  case Nil
  with assms show ?thesis by (simp add: initializeOpenGL_def)
next
  case (Cons w ws)
  with assms show ?thesis
    by (cases "width (rw_size w) \<le> 0 \<or> height (rw_size w) \<le> 0")
       (auto simp add: initializeOpenGL_def record_call_def Let_def mutex_holder_append)
qed

lemma syncAndRender_holder:
  assumes "syncAndRender h s = Inr s1" and "mutex_holder (trace s) None = None"
  shows "mutex_holder (trace s1) None = None"
  using syncAndRender_Inr [OF assms(1)] assms(2)
  by (simp add: mutex_holder_append mutex_holder_synced mutex_holder_rendered)

lemma syncAndRender_rest_holder:
  assumes "syncAndRender_rest h s = Inr s1" and "mutex_holder (trace s) None = None"
  shows "mutex_holder (trace s1) None = None \<and> guiIsLocked s1 = guiIsLocked s"
proof -
  from assms(1) have
    "trace s1 = trace s
        @ (if pendingUpdate s AND SyncRequest \<noteq> 0
           then [MutexLock RenderThread] @ synced (m_windows s) @ [WakeOne, MutexUnlock RenderThread]
           else [])
        @ rendered h (m_windows s)"
    by (auto simp add: syncAndRender_rest_def split: if_splits sum.splits
          dest!: sync_Inr render_windows_Inr)
  with assms(2) syncAndRender_rest_protocol [OF assms(1)] show ?thesis
    by (simp add: mutex_holder_append mutex_holder_synced mutex_holder_rendered)
qed

lemma prepare_frame_holder:
  assumes "prepare_frame s = Inr s2"
  shows "mutex_holder (trace s2) m = mutex_holder (trace s) m"
proof -
  from assms obtain s0 where i: "(if \<not> gl s then initializeOpenGL s else Inr s) = Inr s0"
    and r: "s2 = (if \<not> sgReady s0 then record_call [SgInitialize] (s0\<lparr>sgReady := True\<rparr>) else s0)"
    by (auto simp add: prepare_frame_def split: sum.splits)
  have "mutex_holder (trace s0) m = mutex_holder (trace s) m"
    using i initializeOpenGL_holder [of s s0 m] by (cases "gl s") auto
  with r show ?thesis by (simp add: record_call_def mutex_holder_append)
qed

lemma finish_frame_unlocked:
  assumes inv: "unlocked_invariant (c\<lparr>st := s2\<rparr>)" and ff: "finish_frame h c s2 = Some c1"
  shows "unlocked_invariant c1"
proof -
  from ff obtain s1 where sr: "syncAndRender_rest h s2 = Inr s1"
    and c1: "c1 = c\<lparr>st := s1, rt_pc := Events\<rparr>"
    by (auto simp add: finish_frame_def split: sum.splits)
  from inv have "mutex_holder (trace s2) None = None" by (simp add: unlocked_invariant_def)
  from syncAndRender_rest_holder [OF sr this] inv show ?thesis
    by (simp add: c1 unlocked_invariant_def)
qed

lemma leave_exec_unlocked:
  "unlocked_invariant (c\<lparr>st := s1\<rparr>) \<Longrightarrow> unlocked_invariant (leave_exec c s1)"
  by (simp add: leave_exec_def unlocked_invariant_def)

lemma rt_step_unlocked:
  assumes inv: "unlocked_invariant c" and stp: "rt_step h choice c = Some c1"
  shows "unlocked_invariant c1"
proof -
  from inv have h0: "mutex_holder (trace (st c)) None = None" by (simp add: unlocked_invariant_def)
  show ?thesis
  proof (cases choice)
    case Proceed
    show ?thesis
    proof (cases "rt_pc c")
      case NotStarted
      with Proceed stp inv show ?thesis
        by (auto simp add: rt_step_def Let_def unlocked_invariant_def split: if_splits)
    next
      case LoopTop
      show ?thesis
      proof (cases "\<not> shouldExit (st c) \<and> m_windows (st c) \<noteq> []")
        case True
        with LoopTop Proceed stp obtain s2 where pf: "prepare_frame (st c) = Inr s2"
          and c1: "c1 = c\<lparr>st := s2, rt_pc := AnimateLoad\<rparr> \<or> finish_frame h c s2 = Some c1"
          by (auto simp add: rt_step_def Let_def split: sum.splits if_splits)
        have u2: "unlocked_invariant (c\<lparr>st := s2, rt_pc := pc\<rparr>)" for pc
          by (rule unlocked_invariant_same [OF inv])
             (use prepare_frame_entry [OF pf] prepare_frame_holder [OF pf, of None] h0
               in \<open>simp_all add: frame_entry_def\<close>)
        from c1 show ?thesis
        proof
          assume "c1 = c\<lparr>st := s2, rt_pc := AnimateLoad\<rparr>"
          with u2 show ?thesis by simp
        next
          assume ff: "finish_frame h c s2 = Some c1"
          have "unlocked_invariant (c\<lparr>st := s2\<rparr>)" using u2 [of "rt_pc c"] by simp
          from finish_frame_unlocked [OF this ff] show ?thesis .
        qed
      next
        case False
        with LoopTop Proceed stp inv show ?thesis
          by (auto simp add: rt_step_def Let_def unlocked_invariant_def split: if_splits)
      qed
    next
      case AnimateLoad
      with Proceed stp inv show ?thesis
        by (auto simp add: rt_step_def Let_def unlocked_invariant_def)
    next
      case (AnimateStore r)
      with Proceed stp have ff: "finish_frame h c (animate_post r (st c)) = Some c1"
        by (simp add: rt_step_def Let_def)
      have "unlocked_invariant (c\<lparr>st := animate_post r (st c)\<rparr>)"
        by (rule unlocked_invariant_same [OF inv]) (use h0 in \<open>simp_all add: animate_post_protocol\<close>)
      from finish_frame_unlocked [OF this ff] show ?thesis .
    next
      case Events
      with Proceed stp inv show ?thesis
        by (auto simp add: rt_step_def Let_def record_call_def unlocked_invariant_def
              mutex_holder_append)
    next
      case AfterEvents
      with Proceed stp inv show ?thesis
        by (auto simp add: rt_step_def Let_def leave_exec_def unlocked_invariant_def split: if_splits)
    next
      case Asleep
      with Proceed stp show ?thesis by (simp add: rt_step_def)
    qed
  next
    case Dispatch
    with stp obtain e q s1 where q: "rt_queue (st c) = e # q"
      and ev: "event h e ((st c)\<lparr>rt_queue := q\<rparr>) = Inr s1"
      and c1: "c1 = c\<lparr>st := s1\<rparr> \<or> c1 = leave_exec c s1"
      by (auto simp add: rt_step_def Let_def split: list.splits if_splits sum.splits)
    from event_holder [OF ev] event_protocol [OF ev] h0 inv
    have "unlocked_invariant (c\<lparr>st := s1\<rparr>)" by (simp add: unlocked_invariant_def)
    with c1 show ?thesis by (auto intro: leave_exec_unlocked)
  next
    case (Hook_update w)
    with stp have c1: "c1 = c\<lparr>st := requestRepaint (st c)\<rparr>"
      by (auto simp add: rt_step_def Let_def update_def split: if_splits)
    have "mutex_holder (trace (requestRepaint (st c))) None = None"
      using h0 by (cases "sleeping (st c)"; cases "m_windows (st c) = []")
        (simp_all add: requestRepaint_def state_ops Let_def mutex_holder_append)
    with inv c1 requestRepaint_protocol [of "st c"] show ?thesis
      by (simp add: unlocked_invariant_def)
  next
    case (Hook_maybeUpdate w)
    with stp obtain s1 where "maybeUpdate RenderThread h w (st c) = Inr s1" "c1 = c\<lparr>st := s1\<rparr>"
      by (auto simp add: rt_step_def Let_def split: if_splits sum.splits)
    with maybeUpdate_rt_protocol [of h w "st c" s1] inv show ?thesis
      by (auto simp add: unlocked_invariant_def)
  qed
qed

lemma step_unlocked:
  "unlocked_invariant c \<Longrightarrow> step l c = Some c1 \<Longrightarrow> unlocked_invariant c1"
  by (cases l) (auto simp add: step_def intro: gui_step_unlocked gui_resume_unlocked rt_step_unlocked)

lemma initial_unlocked: "unlocked_invariant (initial_config qgetenv toInt)"
  by (simp add: unlocked_invariant_def initial_config_def QSGThreadedRenderLoop_def)

lemma reachable_unlocked: "reachable c \<Longrightarrow> unlocked_invariant c"
  by (induction rule: reachable.induct) (auto intro: initial_unlocked step_unlocked)

subsection \<open>One record per window\<close>

lemma removeFirst_subset: "set (removeFirst wof ts w) \<subseteq> set ts"
  by (induction ts) auto

lemma removeFirst_distinct:
  "distinct (map wof ts) \<Longrightarrow> distinct (map wof (removeFirst wof ts w))"
proof (induction ts)
  case Nil
  then show ?case by simp
next
  case (Cons t ts)
  then show ?case using removeFirst_subset [of wof ts w] by auto
qed

lemma resize_record_windows:
  "i < length ws \<Longrightarrow> map rw_window (ws[i := (ws ! i)\<lparr>rw_size := sz\<rparr>]) = map rw_window ws"
  by (simp add: map_update list_update_same_conv)

lemma event_Obscure_windows:
  "event h (WM_Obscure w) s = Inr s1 \<Longrightarrow> m_windows s1 = removeFirst rw_window (m_windows s) w"
  by (cases "sleeping s \<and> removeFirst rw_window (m_windows s) w \<noteq> []")
     (auto simp add: event_def Let_def exit_loop_def record_call_def)

lemma event_Resize_windows:
  assumes "event h (WM_Resize w sz) s = Inr s1"
  shows "map rw_window (m_windows s1) = map rw_window (m_windows s)"
proof -
  from assms obtain i where i: "windowFor rw_window (m_windows s) w = Some i"
    and s1: "s1 = s\<lparr>m_windows := (m_windows s)[i := (m_windows s ! i)\<lparr>rw_size := sz\<rparr>]\<rparr>"
    by (auto simp add: event_def split: option.splits)
  from windowFor_Some_lt [OF i] have "i < length (m_windows s)" by simp
  from resize_record_windows [OF this] s1 show ?thesis by simp
qed

lemma event_other_windows:
  assumes ev: "event h e s = Inr s1"
    and e: "\<forall>w sz. e \<noteq> WM_Expose w sz" "\<forall>w. e \<noteq> WM_Obscure w" "\<forall>w sz. e \<noteq> WM_Resize w sz"
  shows "m_windows s1 = m_windows s"
proof (cases e)
  case (WM_TryRelease w dd)
  from ev have "event h (WM_TryRelease w dd) s = Inr s1" unfolding WM_TryRelease .
  then show ?thesis
    by (cases "m_windows s = []"; cases "sleeping s")
       (auto simp add: event_def state_ops Let_def invalidateOpenGL_frame)
next
  case WM_RequestSync
  from ev have "event h WM_RequestSync s = Inr s1" unfolding WM_RequestSync .
  then show ?thesis
    by (cases "m_windows s = []"; cases "sleeping s")
       (auto simp add: event_def state_ops Let_def)
next
  case (WM_Grab w)
  from ev have "event h (WM_Grab w) s = Inr s1" unfolding WM_Grab .
  then show ?thesis
    by (cases "windowFor rw_window (m_windows s) w")
       (auto simp add: event_def state_ops Let_def split: if_splits)
next
  case Slot_animationStarted
  from ev have "event h Slot_animationStarted s = Inr s1" unfolding Slot_animationStarted .
  then show ?thesis
    by (cases "sleeping s") (auto simp add: event_def state_ops rt_animationStarted_def Let_def)
next
  case Slot_animationStopped
  from ev have "event h Slot_animationStopped s = Inr s1" unfolding Slot_animationStopped .
  then show ?thesis
    by (auto simp add: event_def rt_animationStopped_def)
qed (use e in simp_all)

lemma event_Expose_windows:
  assumes "event h (WM_Expose w sz) s = Inr s1" and "distinct (map rw_window (m_windows s))"
  shows "distinct (map rw_window (m_windows s1))"
  using assms by (auto simp add: event_def windowFor_None_iff split: if_splits)

lemma event_distinct:
  assumes ev: "event h e s = Inr s1" and d: "distinct (map rw_window (m_windows s))"
  shows "distinct (map rw_window (m_windows s1))"
proof (cases e)
  case (WM_Expose w sz)
  from ev have "event h (WM_Expose w sz) s = Inr s1" unfolding WM_Expose .
  from event_Expose_windows [OF this d] show ?thesis .
next
  case (WM_Obscure w)
  from ev have "event h (WM_Obscure w) s = Inr s1" unfolding WM_Obscure .
  from event_Obscure_windows [OF this] removeFirst_distinct [OF d, of w] show ?thesis by simp
next
  case (WM_Resize w sz)
  from ev have "event h (WM_Resize w sz) s = Inr s1" unfolding WM_Resize .
  from event_Resize_windows [OF this] d show ?thesis by simp
next
  case (WM_TryRelease w dd)
  with event_other_windows [OF ev] d show ?thesis by simp
next
  case WM_RequestSync
  with event_other_windows [OF ev] d show ?thesis by simp
next
  case (WM_Grab w)
  with event_other_windows [OF ev] d show ?thesis by simp
next
  case Slot_animationStarted
  with event_other_windows [OF ev] d show ?thesis by simp
next
  case Slot_animationStopped
  with event_other_windows [OF ev] d show ?thesis by simp
qed

lemma finish_frame_records:
  assumes inv: "records_invariant (c\<lparr>st := s2\<rparr>)" and ff: "finish_frame h c s2 = Some c1"
  shows "records_invariant c1"
proof -
  from ff obtain s1 where sr: "syncAndRender_rest h s2 = Inr s1"
    and c1: "c1 = c\<lparr>st := s1, rt_pc := Events\<rparr>"
    by (auto simp add: finish_frame_def split: sum.splits)
  from sr have "m_windows s1 = m_windows s2"
    by (auto simp add: syncAndRender_rest_def split: if_splits sum.splits
          dest!: sync_Inr render_windows_Inr)
  with inv show ?thesis by (simp add: c1 records_invariant_def)
qed

lemma settle_records:
  assumes ok: "segments_ok p s0" and d: "distinct (map rw_window (m_windows s0))"
    and st: "settle c p = Some c1"
  shows "records_invariant c1"
  using assms
  by (cases p) (auto simp add: settle_def records_invariant_def seg_done_def seg_wait_def gui_frame_def)

lemma gui_step_records:
  assumes inv: "records_invariant c" and stp: "gui_step h call c = Some c1"
  shows "records_invariant c1"
proof -
  from stp obtain p where idle: "gui_rest c = None"
    and p: "gui_call_prog h call (st c) = Some p" and st: "settle c p = Some c1"
    by (auto simp add: gui_step_def split: option.splits)
  from inv have d: "distinct (map rw_window (m_windows (st c)))" by (simp add: records_invariant_def)
  show ?thesis
  proof (cases "call = Deliver_posted")
    case False
    from settle_records [OF gui_call_prog_ok [OF p False] d st] show ?thesis .
  next
    case True
    with p obtain e q where q: "gui_queue (st c) = e # q"
      and pe: "p = gui_event_handler h e ((st c)\<lparr>gui_queue := q\<rparr>)"
      by (auto simp add: gui_call_prog_def split: list.splits)
    show ?thesis
      by (rule settle_records [OF gui_event_handler_ok _ st [unfolded pe]])
         (use d in simp)
  qed
qed

lemma gui_resume_records:
  assumes inv: "records_invariant c" and stp: "gui_resume c = Some c1"
  shows "records_invariant c1"
proof -
  from stp obtain k where k: "gui_rest c = Some k"
    and st: "settle c (k (st c)) = Some c1"
    by (auto simp add: gui_resume_def split: option.splits if_splits)
  from inv k have ok: "segments_ok (k (st c)) (st c)"
    and d: "distinct (map rw_window (m_windows (st c)))"
    by (simp_all add: records_invariant_def)
  from settle_records [OF ok d st] show ?thesis .
qed

lemma requestRepaint_windows: "m_windows (requestRepaint s) = m_windows s"
  by (cases "sleeping s"; cases "m_windows s = []")
     (simp_all add: requestRepaint_def state_ops Let_def)

lemma leave_exec_records:
  "records_invariant (c\<lparr>st := s1\<rparr>) \<Longrightarrow> records_invariant (leave_exec c s1)"
  by (simp add: leave_exec_def records_invariant_def)

lemma rt_step_records:
  assumes inv: "records_invariant c" and stp: "rt_step h choice c = Some c1"
  shows "records_invariant c1"
proof (cases choice)
  case Proceed
  show ?thesis
  proof (cases "rt_pc c")
    case NotStarted
    with Proceed stp inv show ?thesis
      by (auto simp add: rt_step_def Let_def records_invariant_def split: if_splits)
  next
    case LoopTop
    show ?thesis
    proof (cases "\<not> shouldExit (st c) \<and> m_windows (st c) \<noteq> []")
      case True
      with LoopTop Proceed stp obtain s2 where pf: "prepare_frame (st c) = Inr s2"
        and c1: "c1 = c\<lparr>st := s2, rt_pc := AnimateLoad\<rparr> \<or> finish_frame h c s2 = Some c1"
        by (auto simp add: rt_step_def Let_def split: sum.splits if_splits)
      have r2: "records_invariant (c\<lparr>st := s2, rt_pc := pc\<rparr>)" for pc
        using prepare_frame_entry [OF pf] inv by (simp add: records_invariant_def frame_entry_def)
      from c1 show ?thesis
      proof
        assume "c1 = c\<lparr>st := s2, rt_pc := AnimateLoad\<rparr>"
        with r2 show ?thesis by simp
      next
        assume ff: "finish_frame h c s2 = Some c1"
        have "records_invariant (c\<lparr>st := s2\<rparr>)" using r2 [of "rt_pc c"] by simp
        from finish_frame_records [OF this ff] show ?thesis .
      qed
    next
      case False
      with LoopTop Proceed stp inv show ?thesis
        by (auto simp add: rt_step_def Let_def records_invariant_def split: if_splits)
    qed
  next
    case AnimateLoad
    with Proceed stp inv show ?thesis
      by (auto simp add: rt_step_def Let_def records_invariant_def)
  next
    case (AnimateStore r)
    with Proceed stp have ff: "finish_frame h c (animate_post r (st c)) = Some c1"
      by (simp add: rt_step_def Let_def)
    have "records_invariant (c\<lparr>st := animate_post r (st c)\<rparr>)"
      using inv by (simp add: records_invariant_def animate_post_protocol)
    from finish_frame_records [OF this ff] show ?thesis .
  next
    case Events
    with Proceed stp inv show ?thesis
      by (auto simp add: rt_step_def Let_def record_call_def records_invariant_def)
  next
    case AfterEvents
    with Proceed stp inv show ?thesis
      by (auto simp add: rt_step_def Let_def leave_exec_def records_invariant_def split: if_splits)
  next
    case Asleep
    with Proceed stp show ?thesis by (simp add: rt_step_def)
  qed
next
  case Dispatch
  with stp obtain e q s1 where q: "rt_queue (st c) = e # q"
    and ev: "event h e ((st c)\<lparr>rt_queue := q\<rparr>) = Inr s1"
    and c1: "c1 = c\<lparr>st := s1\<rparr> \<or> c1 = leave_exec c s1"
    by (auto simp add: rt_step_def Let_def split: list.splits if_splits sum.splits)
  from inv have "distinct (map rw_window (m_windows ((st c)\<lparr>rt_queue := q\<rparr>)))"
    by (simp add: records_invariant_def)
  from event_distinct [OF ev this] inv have "records_invariant (c\<lparr>st := s1\<rparr>)"
    by (simp add: records_invariant_def)
  with c1 show ?thesis by (auto intro: leave_exec_records)
next
  case (Hook_update w)
  with stp have c1: "c1 = c\<lparr>st := requestRepaint (st c)\<rparr>"
    by (auto simp add: rt_step_def Let_def update_def split: if_splits)
  with inv show ?thesis by (simp add: records_invariant_def requestRepaint_windows)
next
  case (Hook_maybeUpdate w)
  with stp obtain s1 where "maybeUpdate RenderThread h w (st c) = Inr s1" "c1 = c\<lparr>st := s1\<rparr>"
    by (auto simp add: rt_step_def Let_def split: if_splits sum.splits)
  with maybeUpdate_rt_protocol [of h w "st c" s1] inv show ?thesis
    by (auto simp add: records_invariant_def)
qed

lemma step_records:
  "records_invariant c \<Longrightarrow> step l c = Some c1 \<Longrightarrow> records_invariant c1"
  by (cases l) (auto simp add: step_def intro: gui_step_records gui_resume_records rt_step_records)

lemma initial_records: "records_invariant (initial_config qgetenv toInt)"
  by (simp add: records_invariant_def initial_config_def QSGThreadedRenderLoop_def)

lemma reachable_records: "reachable c \<Longrightarrow> records_invariant c"
  by (induction rule: reachable.induct) (auto intro: initial_records step_records)

subsection \<open>The example runs\<close>

lemma reachable_run_steps:
  "reachable c \<Longrightarrow> run_steps ls c = Some c1 \<Longrightarrow> reachable c1"
  by (induction ls arbitrary: c) (auto split: option.splits intro: reachable_step)

lemmas run_defs = step_def gui_step_def gui_resume_def rt_step_def gui_call_prog_def settle_def
  leave_exec_def prepare_frame_def finish_frame_def syncAndRender_rest_def animate_wanted_def
  animate_post_def initial_config_def QSGThreadedRenderLoop_def
  example_host_def example_window_def example_config_def

lemma sync_requested_config:
  "\<exists>c. run_steps sync_requested_run example_config = Some c
     \<and> pendingUpdate (st c) = SyncRequest \<and> guiIsLocked (st c) \<and> rt_pc c = Events"
  by (simp add: sync_requested_run_def run_defs show_window_def exposureChanged_def
        handleExposure_def polishAndSync_def anyoneShowing_def cond_wait_def state_ops event_def
        Let_def SyncRequest_def get_env_int_def)

lemma reachable_example: "reachable example_config"
  unfolding example_config_def by (rule reachable_initial)

lemma synced_config:
  "\<exists>c. run_steps synced_run example_config = Some c
     \<and> gui_rest c = None \<and> \<not> guiIsLocked (st c) \<and> pendingUpdate (st c) = 0
     \<and> isRunning (st c) \<and> rt_pc c = Events"
  by (simp add: synced_run_def sync_requested_run_def run_defs show_window_def exposureChanged_def
        handleExposure_def polishAndSync_def anyoneShowing_def cond_wait_def state_ops event_def
        Let_def SyncRequest_def get_env_int_def initializeOpenGL_def sync_def)

lemma resize_config:
  "\<exists>c. run_steps resize_run example_config = Some c
     \<and> rt_pc c = Events
     \<and> rt_queue (st c) = [WM_Resize 2 \<lparr>width = 640, height = 480\<rparr>, WM_RequestSync]
     \<and> m_windows (st c) = [\<lparr>rw_window = 1, rw_size = \<lparr>width = 800, height = 600\<rparr>\<rparr>]"
  by (simp add: resize_run_def synced_run_def sync_requested_run_def run_defs show_window_def
        exposureChanged_def resize_def
        handleExposure_def polishAndSync_def anyoneShowing_def cond_wait_def state_ops event_def
        Let_def SyncRequest_def get_env_int_def initializeOpenGL_def sync_def)

lemma zero_size_config:
  "\<exists>c. run_steps zero_size_run example_config = Some c
     \<and> m_windows (st c) = [\<lparr>rw_window = 1, rw_size = \<lparr>width = 0, height = 600\<rparr>\<rparr>]
     \<and> trace (st c) = [StartThread, PolishItems 1, MutexLock GuiThread, CondWait GuiThread,
           SendPostedDeferredDelete, CreateTempWindow, CreateContext, MakeCurrentTemp,
           SgInitialize, DeleteTempWindow, MutexLock RenderThread, WakeOne,
           MutexUnlock RenderThread]"
  by (simp add: zero_size_run_def run_defs show_window_def exposureChanged_def
        handleExposure_def polishAndSync_def anyoneShowing_def cond_wait_def state_ops event_def
        Let_def SyncRequest_def get_env_int_def initializeOpenGL_def sync_def zero_size_host_def)

lemma resync_config:
  "\<exists>c. run_steps resync_run example_config = Some c
     \<and> pendingUpdate (st c) = SyncRequest \<and> guiIsLocked (st c) \<and> gl (st c)
     \<and> m_windows (st c) = [\<lparr>rw_window = 1, rw_size = \<lparr>width = 800, height = 600\<rparr>\<rparr>]"
  by (simp add: resync_run_def synced_run_def sync_requested_run_def run_defs show_window_def
        exposureChanged_def maybeUpdate_def gui_event_handler_def
        handleExposure_def polishAndSync_def anyoneShowing_def cond_wait_def state_ops event_def
        Let_def SyncRequest_def get_env_int_def initializeOpenGL_def sync_def)

lemma run_steps_append:
  "run_steps (xs @ ys) c = (case run_steps xs c of None \<Rightarrow> None | Some c1 \<Rightarrow> run_steps ys c1)"
  by (induction xs arbitrary: c) (auto split: option.splits)

lemmas animated_defs = run_defs show_window_def exposureChanged_def gui_event_handler_def
  handleExposure_def polishAndSync_def anyoneShowing_def cond_wait_def state_ops event_def
  Let_def SyncRequest_def get_env_int_def gui_animationStarted_def rt_animationStarted_def
  initializeOpenGL_def sync_def qsgrl_animation_interval_def

lemma raced_config:
  "\<exists>c. run_steps (first_frame_run @ racing_frame_run) example_config = Some c
     \<and> gui_rest c = None \<and> rt_pc c = Events
     \<and> gui_queue (st c) = [WM_AdvanceAnimations]
     \<and> animationRequestsPending (st c) = 0"
  by (simp add: first_frame_run_def racing_frame_run_def animated_defs)

lemma lost_decrement_config:
  "\<exists>c. run_steps lost_decrement_run example_config = Some c
     \<and> gui_rest c = None \<and> rt_pc c = Events
     \<and> gui_queue (st c) = [WM_AdvanceAnimations]
     \<and> animationRequestsPending (st c) = 2"
  by (simp add: lost_decrement_run_def first_frame_run_def animated_defs)

lemma lost_update_config:
  "\<exists>c. run_steps lost_update_run example_config = Some c
     \<and> gui_rest c = None \<and> rt_pc c = Events
     \<and> gui_queue (st c) = [WM_AdvanceAnimations, WM_AdvanceAnimations, WM_AdvanceAnimations]
     \<and> animationRequestsPending (st c) = 2"
  by (simp add: lost_update_run_def first_frame_run_def racing_frame_run_def animated_frame_run_def
        animated_defs)

subsection \<open>The claims\<close>

text \<open>
  C1. The handler of \<^verbatim>\<open>WM_TryRelease\<close> always returns; what it does to the mutex and the wait
  condition is: lock, then calls \<open>mid\<close> that touch neither, then one \<^verbatim>\<open>wakeOne\<close>, then unlock,
  whether or not anything was torn down. With records left in the list of the render thread
  nothing else changes. With an empty list the context and the scene graph are what
  \<^verbatim>\<open>invalidateOpenGL\<close> leaves, \<open>mid\<close> are the calls of \<^verbatim>\<open>invalidateOpenGL\<close> (and \<^verbatim>\<open>exit\<close> when
  sleeping), and \<^verbatim>\<open>shouldExit\<close> is true iff the context is gone.
\<close>

theorem TryRelease_rendezvous:
  "\<exists>s' mid. event h (WM_TryRelease w d) s = Inr s'
     \<and> trace s' = trace s @ [MutexLock RenderThread] @ mid @ [WakeOne, MutexUnlock RenderThread]
     \<and> WakeOne \<notin> set mid \<and> MutexLock RenderThread \<notin> set mid
     \<and> MutexUnlock RenderThread \<notin> set mid
     \<and> \<not> waiting s'
     \<and> (m_windows s \<noteq> [] \<longrightarrow>
          s' = s\<lparr>waiting := False,
                 trace := trace s @ [MutexLock RenderThread, WakeOne, MutexUnlock RenderThread]\<rparr>)
     \<and> (m_windows s = [] \<longrightarrow>
          gl s' = gl (invalidateOpenGL h w d s)
          \<and> sgReady s' = sgReady (invalidateOpenGL h w d s)
          \<and> shouldExit s' = (\<not> gl s')
          \<and> mid = drop (length (trace s)) (trace (invalidateOpenGL h w d s))
                   @ (if sleeping s then [ExitLoop] else []))"
proof (cases "m_windows s = []")
  case False
  then show ?thesis
    by (simp add: event_def state_ops)
next
  case True
  obtain mid where m: "trace (invalidateOpenGL h w d s) = trace s @ mid"
     "WakeOne \<notin> set mid" "MutexLock RenderThread \<notin> set mid" "MutexUnlock RenderThread \<notin> set mid"
    using trace_invalidateOpenGL by blast
  show ?thesis using True m
    by (simp add: event_def Let_def state_ops invalidateOpenGL_trace_update invalidateOpenGL_frame)
qed

theorem TryRelease_rendezvous_witness:
  "\<exists>s'. event example_host (WM_TryRelease 1 False) (example_state\<lparr>gl := True\<rparr>) = Inr s'
     \<and> trace s' = [MutexLock RenderThread, MakeCurrent 1, CleanupNodesOnShutdown 1, SgInvalidate,
                   SendPostedDeferredDelete, DoneCurrent, DeleteContext, WakeOne,
                   MutexUnlock RenderThread]
     \<and> shouldExit s' \<and> \<not> gl s'"
  using TryRelease_rendezvous [of example_host 1 False "example_state\<lparr>gl := True\<rparr>"]
  by (auto simp add: example_state_def example_host_def example_window_def
        QSGThreadedRenderLoop_def invalidateOpenGL_def record_call_def Let_def)

text \<open>
  C2. The handler of \<^verbatim>\<open>WM_Resize\<close> writes through the pointer \<^verbatim>\<open>windowFor\<close> returns without
  testing it. For a window that has no record in the list of the render thread the pointer is
  null, and the handler dereferences it: it is not a no-op. The two threads reach such an
  event: \<^verbatim>\<open>resize\<close> posts it for a window that is shown and exposed while the render thread
  runs for another window and has not been told of this one.
\<close>

theorem Resize_missing_record:
  "windowFor rw_window (m_windows s) w = None \<Longrightarrow>
     event h (WM_Resize w sz) s = Inl NullPointerDereference"
  by (simp add: event_def)

theorem Resize_missing_record_witness:
  "\<exists>c. run_steps resize_run example_config = Some c \<and> reachable c
     \<and> rt_pc c = Events
     \<and> rt_queue (st c) = [WM_Resize 2 \<lparr>width = 640, height = 480\<rparr>, WM_RequestSync]
     \<and> windowFor rw_window (m_windows (st c)) 2 = None
     \<and> event example_host (WM_Resize 2 \<lparr>width = 640, height = 480\<rparr>)
           ((st c)\<lparr>rt_queue := [WM_RequestSync]\<rparr>) = Inl NullPointerDereference
     \<and> step (Rt example_host Dispatch) c = None"
proof -
  from resize_config obtain c where c: "run_steps resize_run example_config = Some c"
    and pc: "rt_pc c = Events"
    and q: "rt_queue (st c) = [WM_Resize 2 \<lparr>width = 640, height = 480\<rparr>, WM_RequestSync]"
    and m: "m_windows (st c) = [\<lparr>rw_window = 1, rw_size = \<lparr>width = 800, height = 600\<rparr>\<rparr>]"
    by blast
  have r: "reachable c" by (rule reachable_run_steps [OF reachable_example c])
  from m have n: "windowFor rw_window (m_windows ((st c)\<lparr>rt_queue := [WM_RequestSync]\<rparr>)) 2 = None"
    by simp
  from Resize_missing_record [OF n, of example_host "\<lparr>width = 640, height = 480\<rparr>"]
  have e: "event example_host (WM_Resize 2 \<lparr>width = 640, height = 480\<rparr>)
             ((st c)\<lparr>rt_queue := [WM_RequestSync]\<rparr>) = Inl NullPointerDereference" .
  from e pc q have "step (Rt example_host Dispatch) c = None"
    by (simp add: step_def rt_step_def Let_def)
  with c r pc q m e show ?thesis by auto
qed

text \<open>
  C3. \<^verbatim>\<open>polishAndSync\<close> returns at once and changes nothing when no window of the coordinator
  is visible and exposed. Otherwise it polishes every window, clears every
  \<^verbatim>\<open>pendingUpdate\<close>, locks the mutex, sets \<^verbatim>\<open>guiIsLocked\<close>, posts \<^verbatim>\<open>WM_RequestSync\<close> and waits;
  once woken it clears \<^verbatim>\<open>guiIsLocked\<close> and unlocks. Whenever the call finishes, having been
  entered with \<^verbatim>\<open>guiIsLocked\<close> false and the mutex not held by the GUI thread, both hold again.
  In every reachable configuration of the two threads in which the GUI thread is not inside a
  call of the coordinator (so also whenever \<^verbatim>\<open>polishAndSync\<close> has returned to the host),
  \<^verbatim>\<open>guiIsLocked\<close> is false and the GUI thread does not hold the mutex.
\<close>

theorem polishAndSync_rendezvous:
  "(\<not> anyoneShowing h s \<longrightarrow> polishAndSync h s = Done () s)
   \<and> (anyoneShowing h s \<longrightarrow>
        (\<exists>k. polishAndSync h s =
           WaitCond (s\<lparr>wm_windows := map (\<lambda>w. w\<lparr>gw_pendingUpdate := False\<rparr>) (wm_windows s),
                       guiIsLocked := True,
                       rt_queue := rt_queue s @ [WM_RequestSync],
                       waiting := True,
                       trace := trace s @ map (\<lambda>w. PolishItems (gw_window w)) (wm_windows s)
                                @ [MutexLock GuiThread, CondWait GuiThread]\<rparr>) k
           \<and> (\<forall>s2. k s2 = Done () (s2\<lparr>guiIsLocked := False,
                                        trace := trace s2 @ [CondWoken GuiThread, MutexUnlock GuiThread]\<rparr>))))
   \<and> (\<forall>s'. finishes (polishAndSync h s) () s' \<longrightarrow>
         \<not> guiIsLocked s \<longrightarrow> mutex_holder (trace s) None \<noteq> Some GuiThread \<longrightarrow>
         \<not> guiIsLocked s' \<and> mutex_holder (trace s') None \<noteq> Some GuiThread)
   \<and> (reachable c \<longrightarrow> gui_rest c = None \<longrightarrow>
         \<not> guiIsLocked (st c) \<and> mutex_holder (trace (st c)) None \<noteq> Some GuiThread)"
proof -
  have seq: "(\<not> anyoneShowing h s \<longrightarrow> polishAndSync h s = Done () s)
   \<and> (anyoneShowing h s \<longrightarrow>
        (\<exists>k. polishAndSync h s =
           WaitCond (s\<lparr>wm_windows := map (\<lambda>w. w\<lparr>gw_pendingUpdate := False\<rparr>) (wm_windows s),
                       guiIsLocked := True,
                       rt_queue := rt_queue s @ [WM_RequestSync],
                       waiting := True,
                       trace := trace s @ map (\<lambda>w. PolishItems (gw_window w)) (wm_windows s)
                                @ [MutexLock GuiThread, CondWait GuiThread]\<rparr>) k
           \<and> (\<forall>s2. k s2 = Done () (s2\<lparr>guiIsLocked := False,
                                        trace := trace s2 @ [CondWoken GuiThread, MutexUnlock GuiThread]\<rparr>))))
   \<and> (\<forall>s'. finishes (polishAndSync h s) () s' \<longrightarrow>
         \<not> guiIsLocked s \<longrightarrow> mutex_holder (trace s) None \<noteq> Some GuiThread \<longrightarrow>
         \<not> guiIsLocked s' \<and> mutex_holder (trace s') None \<noteq> Some GuiThread)"
  proof (cases "anyoneShowing h s")
    case False
    then show ?thesis
      by (auto simp add: polishAndSync_def elim: finishes.cases)
  next
    case True
    have "\<not> guiIsLocked s' \<and> mutex_holder (trace s') None \<noteq> Some GuiThread"
      if "finishes (polishAndSync h s) () s'" for s'
      using that True
      by (auto simp add: polishAndSync_def cond_wait_def state_ops Let_def mutex_holder_append
            elim!: finishes.cases)
    with True show ?thesis
      by (simp add: polishAndSync_def cond_wait_def state_ops Let_def)
  qed
  have conc: "\<not> guiIsLocked (st c) \<and> mutex_holder (trace (st c)) None \<noteq> Some GuiThread"
    if "reachable c" and "gui_rest c = None"
    using reachable_unlocked [OF that(1)] that(2) by (simp add: unlocked_invariant_def)
  from seq conc show ?thesis by blast
qed

theorem polishAndSync_rendezvous_witness:
  "anyoneShowing example_host showing_state
   \<and> (\<exists>s1 k. polishAndSync example_host showing_state = WaitCond s1 k
        \<and> trace s1 = [PolishItems 1, MutexLock GuiThread, CondWait GuiThread]
        \<and> wm_windows s1 = [\<lparr>gw_window = 1, gw_pendingUpdate = False\<rparr>]
        \<and> guiIsLocked s1 \<and> rt_queue s1 = [WM_RequestSync]
        \<and> \<not> guiIsLocked (case k s1 of Done u s3 \<Rightarrow> s3 | _ \<Rightarrow> s1))
   \<and> (\<exists>c. run_steps synced_run example_config = Some c \<and> reachable c \<and> gui_rest c = None
          \<and> \<not> guiIsLocked (st c) \<and> mutex_holder (trace (st c)) None \<noteq> Some GuiThread)"
proof -
  from synced_config obtain c where c: "run_steps synced_run example_config = Some c"
    and idle: "gui_rest c = None" by blast
  have r: "reachable c" by (rule reachable_run_steps [OF reachable_example c])
  have a: "anyoneShowing example_host showing_state"
    by (simp add: showing_state_def example_state_def QSGThreadedRenderLoop_def example_host_def
          example_window_def anyoneShowing_def)
  from polishAndSync_rendezvous [of example_host showing_state c] a r idle c
  show ?thesis
    by (auto simp add: showing_state_def example_state_def QSGThreadedRenderLoop_def)
qed

text \<open>
  C4. In every reachable configuration of the two threads, a sync request noted in
  \<^verbatim>\<open>pendingUpdate\<close> implies \<^verbatim>\<open>guiIsLocked\<close>; \<^verbatim>\<open>sync\<close> is called from \<^verbatim>\<open>syncAndRender\<close> under that
  bit only, so neither the part of \<^verbatim>\<open>syncAndRender\<close> that calls it (entered as the render
  thread does in its steps: on the state as it is, after the write of the animation counter,
  or after the context and the scene graph have been set up), nor \<^verbatim>\<open>syncAndRender\<close>, nor the
  whole frame of the render loop ends in the failed assertion of \<^verbatim>\<open>sync\<close>; with a record in
  the list the frame returns, and so does, with a context, the part of \<^verbatim>\<open>syncAndRender\<close> that
  calls \<^verbatim>\<open>sync\<close>. The assertion fails exactly when
  \<^verbatim>\<open>guiIsLocked\<close> is false. With \<^verbatim>\<open>guiIsLocked\<close> true and a context, \<^verbatim>\<open>sync\<close> returns: it has
  locked the mutex, synced the windows of non-zero size, called \<^verbatim>\<open>wakeOne\<close> once and unlocked,
  and the whole mask \<^verbatim>\<open>pendingUpdate\<close> is zero. Whenever \<^verbatim>\<open>sync\<close> returns, the state \<open>s2\<close> in
  which it calls \<^verbatim>\<open>wakeOne\<close> has the mask zero and the mutex held by the render thread, and
  nothing was signalled before.
\<close>

theorem sync_only_when_gui_locked:
  "(reachable c \<longrightarrow>
      (pendingUpdate (st c) AND SyncRequest \<noteq> 0 \<longrightarrow> guiIsLocked (st c))
      \<and> syncAndRender_rest h (st c) \<noteq> Inl AssertionFailure
      \<and> (\<forall>r. syncAndRender_rest h (animate_post r (st c)) \<noteq> Inl AssertionFailure)
      \<and> (\<forall>s1. prepare_frame (st c) = Inr s1 \<longrightarrow>
             syncAndRender_rest h s1 \<noteq> Inl AssertionFailure)
      \<and> syncAndRender h (st c) \<noteq> Inl AssertionFailure
      \<and> run_frame h (st c) \<noteq> Inl AssertionFailure
      \<and> (m_windows (st c) \<noteq> [] \<longrightarrow> (\<exists>s1. run_frame h (st c) = Inr s1))
      \<and> (gl (st c) \<longrightarrow> (\<exists>s1. syncAndRender_rest h (st c) = Inr s1)
                        \<and> (\<forall>r. \<exists>s1. syncAndRender_rest h (animate_post r (st c)) = Inr s1)))
   \<and> (sync s = Inl AssertionFailure \<longleftrightarrow> \<not> guiIsLocked s)
   \<and> (guiIsLocked s \<and> gl s \<longrightarrow>
         sync s = Inr (s\<lparr>pendingUpdate := 0, waiting := False,
                         trace := trace s @ [MutexLock RenderThread] @ synced (m_windows s)
                                  @ [WakeOne, MutexUnlock RenderThread]\<rparr>))
   \<and> (\<forall>s'. sync s = Inr s' \<longrightarrow>
         (\<exists>s2. s' = mutex_unlock RenderThread (wakeOne s2)
            \<and> pendingUpdate s2 = 0
            \<and> mutex_holder (trace s2) m = Some RenderThread
            \<and> WakeOne \<notin> set (drop (length (trace s)) (trace s2)))
         \<and> pendingUpdate s' = 0)"
proof -
  have A: "(pendingUpdate (st c) AND SyncRequest \<noteq> 0 \<longrightarrow> guiIsLocked (st c))
      \<and> syncAndRender_rest h (st c) \<noteq> Inl AssertionFailure
      \<and> (\<forall>r. syncAndRender_rest h (animate_post r (st c)) \<noteq> Inl AssertionFailure)
      \<and> (\<forall>s1. prepare_frame (st c) = Inr s1 \<longrightarrow>
             syncAndRender_rest h s1 \<noteq> Inl AssertionFailure)
      \<and> syncAndRender h (st c) \<noteq> Inl AssertionFailure
      \<and> run_frame h (st c) \<noteq> Inl AssertionFailure
      \<and> (m_windows (st c) \<noteq> [] \<longrightarrow> (\<exists>s1. run_frame h (st c) = Inr s1))
      \<and> (gl (st c) \<longrightarrow> (\<exists>s1. syncAndRender_rest h (st c) = Inr s1)
                        \<and> (\<forall>r. \<exists>s1. syncAndRender_rest h (animate_post r (st c)) = Inr s1))" if "reachable c"
  proof -
    from reachable_invariant [OF that]
    have l: "sync_pending (st c) \<longrightarrow> guiIsLocked (st c)"
      by (auto simp add: protocol_invariant_def)
    have t1: "m_windows (st c) \<noteq> [] \<longrightarrow> (\<exists>s1. run_frame h (st c) = Inr s1)"
      using run_frame_total [OF _ l] by blast
    have la: "sync_pending (animate_post r (st c)) \<longrightarrow> guiIsLocked (animate_post r (st c))" for r
      using l by (simp add: sync_pending_def animate_post_protocol)
    have t2: "gl (st c) \<longrightarrow> (\<exists>s1. syncAndRender_rest h (st c) = Inr s1)
                        \<and> (\<forall>r. \<exists>s1. syncAndRender_rest h (animate_post r (st c)) = Inr s1)"
      using syncAndRender_rest_total [OF _ l] syncAndRender_rest_total [OF _ la]
      by (simp add: animate_post_protocol)
    have t3: "\<forall>r. syncAndRender_rest h (animate_post r (st c)) \<noteq> Inl AssertionFailure"
      using la by (simp add: syncAndRender_rest_assertion)
    have t4: "syncAndRender_rest h s1 \<noteq> Inl AssertionFailure" if "prepare_frame (st c) = Inr s1" for s1
      using prepare_frame_entry [OF that] l
      by (auto simp add: syncAndRender_rest_assertion frame_entry_def sync_pending_def)
    from l have "(pendingUpdate (st c) AND SyncRequest \<noteq> 0 \<longrightarrow> guiIsLocked (st c))
      \<and> syncAndRender_rest h (st c) \<noteq> Inl AssertionFailure
      \<and> syncAndRender h (st c) \<noteq> Inl AssertionFailure
      \<and> run_frame h (st c) \<noteq> Inl AssertionFailure"
      by (simp add: syncAndRender_assertion syncAndRender_rest_assertion run_frame_no_assertion)
         (simp add: sync_pending_def)
    with t1 t2 t3 t4 show ?thesis by blast
  qed
  have B: "(\<exists>s2. s' = mutex_unlock RenderThread (wakeOne s2)
            \<and> pendingUpdate s2 = 0
            \<and> mutex_holder (trace s2) m = Some RenderThread
            \<and> WakeOne \<notin> set (drop (length (trace s)) (trace s2)))
         \<and> pendingUpdate s' = 0" if "sync s = Inr s'" for s'
  proof -
    from that obtain s2 where w: "sync_windows (m_windows s) ((mutex_lock RenderThread s)\<lparr>pendingUpdate := 0\<rparr>) = Inr s2"
      and s': "s' = mutex_unlock RenderThread (wakeOne s2)"
      by (auto simp add: sync_def Let_def mutex_lock_def record_call_def split: if_splits sum.splits)
    from sync_windows_Inr [OF w]
    have s2: "s2 = s\<lparr>pendingUpdate := 0, trace := trace s @ [MutexLock RenderThread] @ synced (m_windows s)\<rparr>"
      by (simp add: state_ops)
    have "WakeOne \<notin> set (synced (m_windows s))" by (auto dest: synced_set)
    with s2 have "pendingUpdate s2 = 0 \<and> mutex_holder (trace s2) m = Some RenderThread
        \<and> WakeOne \<notin> set (drop (length (trace s)) (trace s2))"
      by (simp add: mutex_holder_append mutex_holder_synced)
    moreover have "pendingUpdate s' = 0" using s2 s' by (simp add: state_ops)
    ultimately show ?thesis using s' by blast
  qed
  have C: "guiIsLocked s \<and> gl s \<longrightarrow>
         sync s = Inr (s\<lparr>pendingUpdate := 0, waiting := False,
                         trace := trace s @ [MutexLock RenderThread] @ synced (m_windows s)
                                  @ [WakeOne, MutexUnlock RenderThread]\<rparr>)"
    using sync_total [of s] by blast
  from A B C sync_assertion show ?thesis by blast
qed

theorem sync_only_when_gui_locked_witness:
  "\<exists>c. run_steps resync_run example_config = Some c
     \<and> reachable c
     \<and> pendingUpdate (st c) AND SyncRequest \<noteq> 0 \<and> guiIsLocked (st c) \<and> gl (st c)
     \<and> m_windows (st c) \<noteq> []
     \<and> (\<exists>s1. run_frame example_host (st c) = Inr s1)
     \<and> (\<exists>s1. syncAndRender_rest example_host (st c) = Inr s1)
     \<and> (\<exists>s'. sync (st c) = Inr s'
           \<and> pendingUpdate s' = 0 \<and> \<not> waiting s'
           \<and> drop (length (trace (st c))) (trace s')
               = [MutexLock RenderThread, MakeCurrent 1, SyncSceneGraph 1, WakeOne,
                  MutexUnlock RenderThread])"
proof -
  from resync_config obtain c where c: "run_steps resync_run example_config = Some c"
    and p: "pendingUpdate (st c) = SyncRequest" and l: "guiIsLocked (st c)" and g: "gl (st c)"
    and m: "m_windows (st c) = [\<lparr>rw_window = 1, rw_size = \<lparr>width = 800, height = 600\<rparr>\<rparr>]"
    by blast
  have r: "reachable c" by (rule reachable_run_steps [OF reachable_example c])
  from p have b: "pendingUpdate (st c) AND SyncRequest \<noteq> 0" by (simp add: SyncRequest_def)
  from m have n: "m_windows (st c) \<noteq> []" by simp
  from sync_only_when_gui_locked [of c example_host "st c" None] r l g n
  have f: "\<exists>s1. run_frame example_host (st c) = Inr s1"
    and f2: "\<exists>s1. syncAndRender_rest example_host (st c) = Inr s1"
    and s: "sync (st c) = Inr ((st c)\<lparr>pendingUpdate := 0, waiting := False,
                         trace := trace (st c) @ [MutexLock RenderThread] @ synced (m_windows (st c))
                                  @ [WakeOne, MutexUnlock RenderThread]\<rparr>)"
    by blast+
  from s m have "\<exists>s'. sync (st c) = Inr s'
           \<and> pendingUpdate s' = 0 \<and> \<not> waiting s'
           \<and> drop (length (trace (st c))) (trace s')
               = [MutexLock RenderThread, MakeCurrent 1, SyncSceneGraph 1, WakeOne,
                  MutexUnlock RenderThread]"
    by (simp add: synced_def)
  with c r b l g n f f2 show ?thesis by blast
qed

text \<open>
  C5, as stated, fails: with a context, an empty list on the render thread and one remaining
  window that asks for a persistent scene graph but not for a persistent context,
  \<^verbatim>\<open>invalidateOpenGL\<close> returns early and the context survives.
\<close>

theorem TryRelease_context_survives_counterexample:
  "m_windows persistent_state = []
   \<and> gl persistent_state
   \<and> map_sum id gl (event persistentSG_host (WM_TryRelease 1 False) persistent_state) = Inr True
   \<and> filter (\<lambda>g. isPersistentOpenGLContext (win persistentSG_host (gw_window g)))
        (remaining 1 False persistent_state) = []"
  by (simp add: persistent_state_def persistentSG_host_def example_state_def example_window_def
        QSGThreadedRenderLoop_def event_def invalidateOpenGL_def state_ops Let_def remaining_def)

text \<open>
  C5, amended. After a \<^verbatim>\<open>WM_TryRelease\<close> for a window that is not null, handled with an empty
  list on the render thread and a context, the context survives iff a remaining window asks
  for a persistent scene graph or for a persistent context. If one asks for a persistent scene
  graph the teardown returns early: the scene graph is not invalidated and the context
  stays. If none does, the scene graph is invalidated and the context survives iff a
  remaining window asks for a persistent context. \<^verbatim>\<open>shouldExit\<close> is true iff the context is gone.
\<close>

theorem TryRelease_persistence:
  assumes "m_windows s = []" and "gl s" and "w \<noteq> 0"
  shows "\<exists>s'. event h (WM_TryRelease w d) s = Inr s'
     \<and> (gl s' \<longleftrightarrow> (\<exists>g \<in> set (remaining w d s).
                       isPersistentSceneGraph (win h (gw_window g))
                       \<or> isPersistentOpenGLContext (win h (gw_window g))))
     \<and> ((\<exists>g \<in> set (remaining w d s). isPersistentSceneGraph (win h (gw_window g)))
          \<longrightarrow> gl s' \<and> sgReady s' = sgReady s \<and> SgInvalidate \<notin> set (drop (length (trace s)) (trace s')))
     \<and> (\<not> (\<exists>g \<in> set (remaining w d s). isPersistentSceneGraph (win h (gw_window g)))
          \<longrightarrow> \<not> sgReady s' \<and> SgInvalidate \<in> set (drop (length (trace s)) (trace s'))
              \<and> (gl s' \<longleftrightarrow> (\<exists>g \<in> set (remaining w d s). isPersistentOpenGLContext (win h (gw_window g)))))
     \<and> shouldExit s' = (\<not> gl s')"
  using assms
  by (auto simp add: event_def invalidateOpenGL_def state_ops Let_def remaining_def persistence_eq)

theorem TryRelease_persistence_witness:
  "m_windows persistent_state = [] \<and> gl persistent_state \<and> (1::nat) \<noteq> 0
   \<and> (\<exists>s'. event persistentSG_host (WM_TryRelease 1 False) persistent_state = Inr s'
          \<and> gl s' \<and> sgReady s' \<and> \<not> shouldExit s')"
  using TryRelease_persistence [of persistent_state 1 persistentSG_host False]
  by (auto simp add: persistent_state_def persistentSG_host_def example_state_def example_window_def
        QSGThreadedRenderLoop_def remaining_def)

text \<open>
  C6. In every reachable configuration of the two threads each window has at most one
  record on the render thread. Take a record whose size has width zero or height zero, each
  window having one record. Then \<^verbatim>\<open>sync\<close> does not call \<^verbatim>\<open>syncSceneGraph\<close> for its window,
  \<^verbatim>\<open>syncAndRender\<close> calls neither \<^verbatim>\<open>syncSceneGraph\<close> nor \<^verbatim>\<open>renderSceneGraph\<close> nor
  \<^verbatim>\<open>swapBuffers\<close> for it, and both leave the list of records as it was.
\<close>

theorem zero_size_window_skipped:
  "(reachable c \<longrightarrow> distinct (map rw_window (m_windows (st c))))
   \<and> (r \<in> set (m_windows s) \<and> (width (rw_size r) = 0 \<or> height (rw_size r) = 0)
        \<and> distinct (map rw_window (m_windows s)) \<longrightarrow>
       (\<forall>s'. sync s = Inr s' \<longrightarrow>
            SyncSceneGraph (rw_window r) \<notin> set (drop (length (trace s)) (trace s'))
            \<and> m_windows s' = m_windows s)
       \<and> (\<forall>s'. syncAndRender h s = Inr s' \<longrightarrow>
            SyncSceneGraph (rw_window r) \<notin> set (drop (length (trace s)) (trace s'))
            \<and> (\<forall>sz. RenderSceneGraph (rw_window r) sz \<notin> set (drop (length (trace s)) (trace s')))
            \<and> SwapBuffers (rw_window r) \<notin> set (drop (length (trace s)) (trace s'))
            \<and> m_windows s' = m_windows s))"
proof -
  have inv: "distinct (map rw_window (m_windows (st c)))" if "reachable c"
    using reachable_records [OF that] by (simp add: records_invariant_def)
  have main: "(\<forall>s'. sync s = Inr s' \<longrightarrow>
            SyncSceneGraph (rw_window r) \<notin> set (drop (length (trace s)) (trace s'))
            \<and> m_windows s' = m_windows s)
       \<and> (\<forall>s'. syncAndRender h s = Inr s' \<longrightarrow>
            SyncSceneGraph (rw_window r) \<notin> set (drop (length (trace s)) (trace s'))
            \<and> (\<forall>sz. RenderSceneGraph (rw_window r) sz \<notin> set (drop (length (trace s)) (trace s')))
            \<and> SwapBuffers (rw_window r) \<notin> set (drop (length (trace s)) (trace s'))
            \<and> m_windows s' = m_windows s)"
    if r: "r \<in> set (m_windows s)"
      and zero: "width (rw_size r) = 0 \<or> height (rw_size r) = 0"
      and one: "distinct (map rw_window (m_windows s))"
  proof -
    have only_sync: "RenderSceneGraph w' sz \<notin> set (synced (m_windows s))
        \<and> SwapBuffers w' \<notin> set (synced (m_windows s))" for w' sz
      by (auto dest!: synced_set)
    have no_sync: "SyncSceneGraph (rw_window r) \<notin> set (synced (m_windows s))"
    proof
      assume "SyncSceneGraph (rw_window r) \<in> set (synced (m_windows s))"
      then obtain r' where "r' \<in> set (m_windows s)" "width (rw_size r') \<noteq> 0 \<and> height (rw_size r') \<noteq> 0"
        "rw_window r' = rw_window r"
        by (auto dest!: synced_set)
      with distinct_window_record [OF one r] zero show False by auto
    qed
    have no_render: "a \<in> set (rendered h (m_windows s)) \<Longrightarrow>
        a \<noteq> SyncSceneGraph (rw_window r) \<and> a \<noteq> RenderSceneGraph (rw_window r) sz
        \<and> a \<noteq> SwapBuffers (rw_window r)" for a sz
    proof -
      assume "a \<in> set (rendered h (m_windows s))"
      then obtain r' where r': "r' \<in> set (m_windows s)" "width (rw_size r') \<noteq> 0 \<and> height (rw_size r') \<noteq> 0"
        "a = MakeCurrent (rw_window r') \<or> a = RenderSceneGraph (rw_window r') (rw_size r')
              \<or> a = SwapBuffers (rw_window r') \<or> a = FireFrameSwapped (rw_window r')"
        by (auto dest!: rendered_set)
      have "rw_window r' \<noteq> rw_window r"
        using distinct_window_record [OF one r r'(1)] zero r'(2) by auto
      with r'(3) show ?thesis by auto
    qed
    have A: "\<forall>s'. sync s = Inr s' \<longrightarrow>
              SyncSceneGraph (rw_window r) \<notin> set (drop (length (trace s)) (trace s'))
              \<and> m_windows s' = m_windows s"
      using no_sync by (auto dest!: sync_Inr)
    have B: "\<forall>s'. syncAndRender h s = Inr s' \<longrightarrow>
              SyncSceneGraph (rw_window r) \<notin> set (drop (length (trace s)) (trace s'))
              \<and> (\<forall>sz. RenderSceneGraph (rw_window r) sz \<notin> set (drop (length (trace s)) (trace s')))
              \<and> SwapBuffers (rw_window r) \<notin> set (drop (length (trace s)) (trace s'))
              \<and> m_windows s' = m_windows s"
    proof (intro allI impI)
      fix s' assume "syncAndRender h s = Inr s'"
      from syncAndRender_Inr [OF this] no_sync no_render only_sync
      show "SyncSceneGraph (rw_window r) \<notin> set (drop (length (trace s)) (trace s'))
              \<and> (\<forall>sz. RenderSceneGraph (rw_window r) sz \<notin> set (drop (length (trace s)) (trace s')))
              \<and> SwapBuffers (rw_window r) \<notin> set (drop (length (trace s)) (trace s'))
              \<and> m_windows s' = m_windows s"
        by (auto split: if_splits)
    qed
    from A B show ?thesis by blast
  qed
  from inv main show ?thesis by blast
qed

theorem zero_size_window_skipped_witness:
  "\<lparr>rw_window = 1, rw_size = \<lparr>width = 0, height = 600\<rparr>\<rparr> \<in> set (m_windows zero_size_state)
   \<and> distinct (map rw_window (m_windows zero_size_state))
   \<and> (\<exists>s'. syncAndRender example_host zero_size_state = Inr s'
        \<and> SyncSceneGraph 1 \<notin> set (trace s')
        \<and> SwapBuffers 1 \<notin> set (trace s')
        \<and> SyncSceneGraph 2 \<in> set (trace s')
        \<and> m_windows s' = m_windows zero_size_state)
   \<and> (\<exists>c. run_steps zero_size_run example_config = Some c \<and> reachable c
        \<and> m_windows (st c) = [\<lparr>rw_window = 1, rw_size = \<lparr>width = 0, height = 600\<rparr>\<rparr>]
        \<and> distinct (map rw_window (m_windows (st c)))
        \<and> SyncSceneGraph 1 \<notin> set (trace (st c))
        \<and> WakeOne \<in> set (trace (st c)))"
proof -
  from zero_size_config obtain c where c: "run_steps zero_size_run example_config = Some c"
    and m: "m_windows (st c) = [\<lparr>rw_window = 1, rw_size = \<lparr>width = 0, height = 600\<rparr>\<rparr>]"
    and tr: "trace (st c) = [StartThread, PolishItems 1, MutexLock GuiThread, CondWait GuiThread,
           SendPostedDeferredDelete, CreateTempWindow, CreateContext, MakeCurrentTemp,
           SgInitialize, DeleteTempWindow, MutexLock RenderThread, WakeOne,
           MutexUnlock RenderThread]"
    by blast
  have r: "reachable c" by (rule reachable_run_steps [OF reachable_example c])
  have A: "\<lparr>rw_window = 1, rw_size = \<lparr>width = 0, height = 600\<rparr>\<rparr> \<in> set (m_windows zero_size_state)
      \<and> distinct (map rw_window (m_windows zero_size_state))"
    by (simp add: zero_size_state_def)
  from zero_size_window_skipped [of c "\<lparr>rw_window = 1, rw_size = \<lparr>width = 0, height = 600\<rparr>\<rparr>"
      zero_size_state example_host] A r
  have B: "\<exists>s'. syncAndRender example_host zero_size_state = Inr s'
        \<and> SyncSceneGraph 1 \<notin> set (trace s')
        \<and> SwapBuffers 1 \<notin> set (trace s')
        \<and> SyncSceneGraph 2 \<in> set (trace s')
        \<and> m_windows s' = m_windows zero_size_state"
    and C: "distinct (map rw_window (m_windows (st c)))"
    by (simp_all add: zero_size_frame)
  from A B C c r m tr show ?thesis by auto
qed

text \<open>
  C7, as stated, fails: \<^verbatim>\<open>maybeUpdate\<close> starts with an assertion, and a call made on the render
  thread while \<^verbatim>\<open>guiIsLocked\<close> is false fails it. For a window without a record such a call is
  not a no-op; for a window with a record, no update pending and the render thread running,
  it does not post \<^verbatim>\<open>WM_UpdateLater\<close>. The two threads reach a configuration in which the
  render thread is running and \<^verbatim>\<open>guiIsLocked\<close> is false, where the call fails in the same way.
\<close>

theorem maybeUpdate_off_thread_counterexample:
  "windowFor gw_window (wm_windows tracked_state) 2 = None
   \<and> maybeUpdate RenderThread example_host 2 tracked_state \<noteq> Inr tracked_state
   \<and> windowFor gw_window (wm_windows tracked_state) 1 = Some 0
   \<and> \<not> gw_pendingUpdate (wm_windows tracked_state ! 0) \<and> isRunning tracked_state
   \<and> maybeUpdate RenderThread example_host 1 tracked_state
       \<noteq> Inr (tracked_state\<lparr>gui_queue := gui_queue tracked_state @ [WM_UpdateLater 1]\<rparr>)
   \<and> maybeUpdate RenderThread example_host 1 tracked_state = Inl AssertionFailure
   \<and> (\<exists>c. run_steps synced_run example_config = Some c
          \<and> isRunning (st c) \<and> rt_pc c = Events
          \<and> maybeUpdate RenderThread example_host 1 (st c) = Inl AssertionFailure)"
proof -
  from synced_config obtain c where c: "run_steps synced_run example_config = Some c"
    and l: "\<not> guiIsLocked (st c)" and r: "isRunning (st c)" and pc: "rt_pc c = Events" by blast
  from l have "maybeUpdate RenderThread example_host 1 (st c) = Inl AssertionFailure"
    by (simp add: maybeUpdate_def)
  with c r pc show ?thesis
    by (auto simp add: tracked_state_def example_state_def QSGThreadedRenderLoop_def maybeUpdate_def)
qed

text \<open>
  C7, amended. For a call that passes the assertion of \<^verbatim>\<open>maybeUpdate\<close> (made on the GUI thread,
  or while \<^verbatim>\<open>guiIsLocked\<close> is true): nothing happens when the window has no record, when its
  record has \<^verbatim>\<open>pendingUpdate\<close> set or when the render thread is not running. Otherwise, on the
  render thread, \<^verbatim>\<open>WM_UpdateLater\<close> is posted and nothing else; elsewhere \<^verbatim>\<open>pendingUpdate\<close> of
  the record is set, and only when no update timer is armed one is started, with the interval
  \<^verbatim>\<open>m_exhaust_delay\<close> when the animation driver runs and \<open>0\<close> otherwise. \<^verbatim>\<open>m_exhaust_delay\<close> is
  read by the constructor from \<^verbatim>\<open>QML_EXHAUST_DELAY\<close>, with \<open>5\<close> as the default.
\<close>

theorem maybeUpdate_coalescing:
  assumes valid: "cur = GuiThread \<or> guiIsLocked s"
  shows "(windowFor gw_window (wm_windows s) w = None \<longrightarrow> maybeUpdate cur h w s = Inr s)
    \<and> (\<forall>i. windowFor gw_window (wm_windows s) w = Some i \<longrightarrow>
          gw_pendingUpdate (wm_windows s ! i) \<longrightarrow> maybeUpdate cur h w s = Inr s)
    \<and> (\<not> isRunning s \<longrightarrow> maybeUpdate cur h w s = Inr s)
    \<and> (\<forall>i. windowFor gw_window (wm_windows s) w = Some i \<longrightarrow>
          \<not> gw_pendingUpdate (wm_windows s ! i) \<longrightarrow> isRunning s \<longrightarrow>
          (cur = RenderThread \<longrightarrow>
             maybeUpdate cur h w s = Inr (s\<lparr>gui_queue := gui_queue s @ [WM_UpdateLater w]\<rparr>))
          \<and> (cur \<noteq> RenderThread \<longrightarrow>
               (let s1 = s\<lparr>wm_windows := (wm_windows s)[i := (wm_windows s ! i)\<lparr>gw_pendingUpdate := True\<rparr>]\<rparr>
                in (m_update_timer s > 0 \<longrightarrow> maybeUpdate cur h w s = Inr s1)
                 \<and> (\<not> m_update_timer s > 0 \<longrightarrow>
                      maybeUpdate cur h w s =
                        Inr (s1\<lparr>m_update_timer := timerId h,
                                trace := trace s @ [StartTimer (if driverRunning s then m_exhaust_delay s else 0) True]\<rparr>)))))
    \<and> m_exhaust_delay (QSGThreadedRenderLoop qgetenv toInt) =
        (case toInt (qgetenv ''QML_EXHAUST_DELAY'') of Some v \<Rightarrow> v | None \<Rightarrow> 5)"
  using valid
  by (auto simp add: maybeUpdate_def state_ops Let_def QSGThreadedRenderLoop_def get_env_int_def
        split: option.splits)

theorem maybeUpdate_coalescing_witness:
  "maybeUpdate GuiThread example_host 1 tracked_state =
     Inr (tracked_state\<lparr>wm_windows := [\<lparr>gw_window = 1, gw_pendingUpdate = True\<rparr>],
            m_update_timer := 7, trace := [StartTimer 5 True]\<rparr>)
   \<and> maybeUpdate RenderThread example_host 1 (tracked_state\<lparr>guiIsLocked := True\<rparr>) =
       Inr (tracked_state\<lparr>guiIsLocked := True, gui_queue := [WM_UpdateLater 1]\<rparr>)
   \<and> maybeUpdate GuiThread example_host 2 tracked_state = Inr tracked_state"
  using maybeUpdate_coalescing [of GuiThread tracked_state 1 example_host "\<lambda>name. []" "\<lambda>content. None"]
    maybeUpdate_coalescing [of RenderThread "tracked_state\<lparr>guiIsLocked := True\<rparr>" 1 example_host
      "\<lambda>name. []" "\<lambda>content. None"]
    maybeUpdate_coalescing [of GuiThread tracked_state 2 example_host "\<lambda>name. []" "\<lambda>content. None"]
  by (simp add: tracked_state_def example_state_def QSGThreadedRenderLoop_def example_host_def
        get_env_int_def Let_def)

text \<open>
  C8. The counter does not bound the events in flight. \<^verbatim>\<open>++animationRequestsPending\<close> on the
  render thread and \<^verbatim>\<open>--animationRequestsPending\<close> on the GUI thread each read and then write
  the counter, with nothing to keep the other thread out in between. In the run
  \<open>lost_update_run\<close> the render thread reads \<open>1\<close>, the GUI thread reads \<open>1\<close>, the render thread
  writes \<open>2\<close> and posts, and the GUI thread writes \<open>0\<close>: one event is in flight and the counter
  says none. After two more frames three \<^verbatim>\<open>WM_AdvanceAnimations\<close> events are in the queue of the
  GUI thread while the counter is \<open>2\<close>. With the two writes in the other order
  (\<open>lost_decrement_run\<close>) the counter is \<open>2\<close> with one event in flight. In each of the three
  configurations the GUI thread is in its event loop and the render thread in \<^verbatim>\<open>processEvents\<close>,
  so the events in flight are those in the queue.
\<close>

theorem animation_requests_lost_update:
  "(\<exists>c. run_steps (first_frame_run @ racing_frame_run) example_config = Some c
        \<and> reachable c \<and> gui_rest c = None \<and> rt_pc c = Events
        \<and> gui_queue (st c) = [WM_AdvanceAnimations]
        \<and> animationRequestsPending (st c) = 0)
   \<and> (\<exists>c. run_steps lost_update_run example_config = Some c
        \<and> reachable c \<and> gui_rest c = None \<and> rt_pc c = Events
        \<and> gui_queue (st c) = [WM_AdvanceAnimations, WM_AdvanceAnimations, WM_AdvanceAnimations]
        \<and> count_list (gui_queue (st c)) WM_AdvanceAnimations = 3
        \<and> animationRequestsPending (st c) = 2)
   \<and> (\<exists>c. run_steps lost_decrement_run example_config = Some c
        \<and> reachable c \<and> gui_rest c = None \<and> rt_pc c = Events
        \<and> gui_queue (st c) = [WM_AdvanceAnimations]
        \<and> animationRequestsPending (st c) = 2)"
proof -
  from lost_decrement_config obtain c2 where c2: "run_steps lost_decrement_run example_config = Some c2"
    and i2: "gui_rest c2 = None" "rt_pc c2 = Events"
    and q2: "gui_queue (st c2) = [WM_AdvanceAnimations]" and a2: "animationRequestsPending (st c2) = 2"
    by blast
  have r2: "reachable c2" by (rule reachable_run_steps [OF reachable_example c2])
  from raced_config obtain c1 where c1: "run_steps (first_frame_run @ racing_frame_run) example_config = Some c1"
    and i1: "gui_rest c1 = None" "rt_pc c1 = Events"
    and q1: "gui_queue (st c1) = [WM_AdvanceAnimations]" and a1: "animationRequestsPending (st c1) = 0"
    by blast
  have r1: "reachable c1" by (rule reachable_run_steps [OF reachable_example c1])
  from lost_update_config obtain c where c: "run_steps lost_update_run example_config = Some c"
    and i: "gui_rest c = None" "rt_pc c = Events"
    and q: "gui_queue (st c) = [WM_AdvanceAnimations, WM_AdvanceAnimations, WM_AdvanceAnimations]"
    and a: "animationRequestsPending (st c) = 2"
    by blast
  have r: "reachable c" by (rule reachable_run_steps [OF reachable_example c])
  from q have n: "count_list (gui_queue (st c)) WM_AdvanceAnimations = 3" by simp
  have A: "\<exists>c. run_steps (first_frame_run @ racing_frame_run) example_config = Some c
        \<and> reachable c \<and> gui_rest c = None \<and> rt_pc c = Events
        \<and> gui_queue (st c) = [WM_AdvanceAnimations]
        \<and> animationRequestsPending (st c) = 0"
    using c1 r1 i1 q1 a1 by blast
  have B: "\<exists>c. run_steps lost_update_run example_config = Some c
        \<and> reachable c \<and> gui_rest c = None \<and> rt_pc c = Events
        \<and> gui_queue (st c) = [WM_AdvanceAnimations, WM_AdvanceAnimations, WM_AdvanceAnimations]
        \<and> count_list (gui_queue (st c)) WM_AdvanceAnimations = 3
        \<and> animationRequestsPending (st c) = 2"
    using c r i q n a by blast
  have C: "\<exists>c. run_steps lost_decrement_run example_config = Some c
        \<and> reachable c \<and> gui_rest c = None \<and> rt_pc c = Events
        \<and> gui_queue (st c) = [WM_AdvanceAnimations]
        \<and> animationRequestsPending (st c) = 2"
    using c2 r2 i2 q2 a2 by blast
  from A B C show ?thesis by blast
qed

text \<open>
  C9. \<^verbatim>\<open>grab\<close> with the render thread not running returns the null image at once: the state,
  with its queues and its trace, is the one it was called in.
\<close>

theorem grab_not_running:
  "\<not> isRunning s \<Longrightarrow> grab h w s = Done NullImage s"
  by (simp add: grab_def)

theorem grab_not_running_witness:
  "\<not> isRunning example_state \<and> grab example_host 1 example_state = Done NullImage example_state"
  using grab_not_running [of example_state example_host 1]
  by (simp add: example_state_def QSGThreadedRenderLoop_def)

text \<open>
  C10. The handler of \<^verbatim>\<open>WM_Grab\<close> for a window without a record on the render thread locks the
  mutex, wakes the waiting thread once and unlocks, and does nothing else: no sync, no
  render, no read of the framebuffer, and the image of the caller is as it was.
\<close>

theorem Grab_missing_record:
  "windowFor rw_window (m_windows s) w = None \<Longrightarrow>
     (\<exists>s'. event h (WM_Grab w) s = Inr s'
        \<and> trace s' = trace s @ [MutexLock RenderThread, WakeOne, MutexUnlock RenderThread]
        \<and> grab_result s' = grab_result s
        \<and> \<not> waiting s'
        \<and> s' = s\<lparr>waiting := False, trace := trace s'\<rparr>)"
  by (simp add: event_def state_ops)

theorem Grab_missing_record_witness:
  "windowFor rw_window (m_windows example_state) 1 = None
   \<and> (\<exists>s'. event example_host (WM_Grab 1) (example_state\<lparr>waiting := True\<rparr>) = Inr s'
        \<and> trace s' = [MutexLock RenderThread, WakeOne, MutexUnlock RenderThread]
        \<and> grab_result s' = NullImage \<and> \<not> waiting s')"
  using Grab_missing_record [of "example_state\<lparr>waiting := True\<rparr>" 1 example_host]
  by (auto simp add: example_state_def QSGThreadedRenderLoop_def)

end
